theory Spec2Isabelle
  imports Main "HOL-Library.Word" "HOL-Library.Char_ord" "HOL-Library.List_Lexorder"
    "HOL-Library.AList"
begin

section \<open>Shared vocabulary\<close>

text \<open>
  A Go \<^verbatim>\<open>[]byte\<close> and a Go \<^verbatim>\<open>string\<close> are both byte sequences: \<open>string\<close>
  (a list of 8-bit characters). \<^verbatim>\<open>int32\<close> is a 32-bit word, read as two's
  complement with \<open>sint\<close>; addition wraps, as \<^verbatim>\<open>atomic.AddInt32\<close> does.
\<close>

type_synonym bytes = string
type_synonym int32 = "32 word"

text \<open>The operations of the operating system that the file writer calls, by name and path.\<close>

datatype fs_op =
    OpOpenFile string
  | OpMkdirAll string
  | OpReopenFile string
  | OpFileWrite string
  | OpStat string
  | OpFileClose string
  | OpRename string string
  | OpCreate string
  | OpOpen string
  | OpCopy string string
  | OpGzipClose string
  | OpRemove string
  | OpGlob string

text \<open>
  Go's \<^verbatim>\<open>error\<close> values. \<open>ErrNotExist\<close> is the one \<^verbatim>\<open>os.IsNotExist\<close> recognises;
  \<open>ErrInvalid\<close> is what a method of a nil \<^verbatim>\<open>*os.File\<close> returns, \<open>ErrFileClosed\<close> what a
  closed one returns; \<open>ErrIO\<close> is any other failure of the named operation;
  \<open>ErrSink\<close> is an error of an arbitrary \<^verbatim>\<open>io.Writer\<close>.
\<close>

datatype error =
    ErrNotExist string
  | ErrInvalid
  | ErrFileClosed
  | ErrIO fs_op
  | ErrSink string

text \<open>A call of Go code returns normally or panics.\<close>

datatype 'a outcome = Returns 'a | Panics string

subsection \<open>\<^verbatim>\<open>fmt.Sprintf\<close> with \<^verbatim>\<open>%d\<close>\<close>

fun dec :: "nat \<Rightarrow> string" where
  "dec n = (if n < 10 then [''0123456789'' ! n] else dec (n div 10) @ [''0123456789'' ! (n mod 10)])"

declare dec.simps [simp del]

definition fmt_d :: "int \<Rightarrow> string" where
  "fmt_d i = (if i < 0 then CHR ''-'' # dec (nat (- i)) else dec (nat i))"

section \<open>Channels\<close>

text \<open>
  A buffered Go channel: the queued values in FIFO order, the capacity given to
  \<^verbatim>\<open>make\<close>, and whether \<^verbatim>\<open>close\<close> has been called.
\<close>

record 'a chan =
  buf :: "'a list"
  cap :: nat
  chan_closed :: bool

definition make_chan :: "nat \<Rightarrow> 'a chan" where
  "make_chan n = \<lparr>buf = [], cap = n, chan_closed = False\<rparr>"

text \<open>
  \<^verbatim>\<open>select { case c <- x: ... default: ... }\<close>: the send goes through when the buffer
  has room, the default branch runs when it is full, and a send on a closed
  channel panics.
\<close>

datatype 'a sent = Sent "'a chan" | Full | SendOnClosed

definition try_send :: "'a chan \<Rightarrow> 'a \<Rightarrow> 'a sent" where
  "try_send c x =
     (if chan_closed c then SendOnClosed
      else if length (buf c) < cap c then Sent (c\<lparr>buf := buf c @ [x]\<rparr>)
      else Full)"

text \<open>
  \<^verbatim>\<open>select { case <-c: ... default: ... }\<close> on a channel of byte slices: the oldest
  queued value when there is one; on an empty closed channel the receive still
  goes through and yields the zero value (nil); on an empty open channel the
  default branch runs (\<open>None\<close>).
\<close>

definition try_recv :: "bytes chan \<Rightarrow> (bytes \<times> bytes chan) option" where
  "try_recv c =
     (case buf c of
        x # xs \<Rightarrow> Some (x, c\<lparr>buf := xs\<rparr>)
      | [] \<Rightarrow> if chan_closed c then Some ([], c) else None)"

section \<open>asyncLogWriter\<close>

text \<open>
  The struct of \<^verbatim>\<open>async_log_writer.go\<close>. \<open>w\<close> is the state of the wrapped
  \<^verbatim>\<open>io.Writer\<close>; its \<^verbatim>\<open>Write\<close> method is a function of type \<open>'w sink\<close>.
  \<open>failed\<close> is \<open>-1\<close> when the writer is disabled and the number of lost writes
  otherwise. The write goroutine exists as long as \<open>exitCh\<close> is not closed.
\<close>

record 'w asyncLogWriter =
  w :: 'w
  ch :: "bytes chan"
  failed :: int32
  closed :: int32
  exitCh :: "unit chan"

type_synonym 'w sink = "bytes \<Rightarrow> 'w \<Rightarrow> (int \<times> error option) \<times> 'w"

text \<open>
  Other goroutines run between the atomic actions of a call. An environment says what
  they do to the shared struct before the atomic action with a given number;
  \<open>quiet\<close> is the environment in which nothing else runs.
\<close>

type_synonym 'w env = "nat \<Rightarrow> 'w asyncLogWriter \<Rightarrow> 'w asyncLogWriter"

definition quiet :: "'w env" where
  "quiet t s = s"

text \<open>
  \<^verbatim>\<open>NewAsyncLogWriter\<close>: a queue of 500 write requests, and the write goroutine started.
  The registration of \<^verbatim>\<open>Close\<close> with the \<^verbatim>\<open>life\<close> package concerns the shutdown of the
  process and is left out.
\<close>

definition NewAsyncLogWriter :: "'w \<Rightarrow> 'w asyncLogWriter" where
  "NewAsyncLogWriter w0 =
     \<lparr>w = w0, ch = make_chan 500, failed = 0, closed = 0, exitCh = make_chan 0\<rparr>"

text \<open>
  \<^verbatim>\<open>drain\<close>: receive until the default branch runs. The first argument is fuel: one unit
  per iteration, and \<open>None\<close> says that the loop was still running when it ran out.
  \<^verbatim>\<open>drain\<close> and \<^verbatim>\<open>handleInnerWriteError\<close> are executed in one piece: no other goroutine acts
  in between.
\<close>

fun drain :: "nat \<Rightarrow> 'w asyncLogWriter \<Rightarrow> 'w asyncLogWriter option" where
  "drain 0 s = None"
| "drain (Suc fuel) s =
     (case try_recv (ch s) of
        Some (v, c') \<Rightarrow> drain fuel (s\<lparr>ch := c'\<rparr>)
      | None \<Rightarrow> Some s)"

definition handleInnerWriteError ::
  "nat \<Rightarrow> error \<Rightarrow> 'w asyncLogWriter \<Rightarrow> 'w asyncLogWriter option" where
  "handleInnerWriteError fuel e s = drain fuel (s\<lparr>failed := - 1\<rparr>)"

text \<open>The text of the synthetic record, for the value of the local variable \<^verbatim>\<open>failed\<close>.\<close>

definition notice :: "int32 \<Rightarrow> bytes" where
  "notice failed0 = ''Too many logs, '' @ fmt_d (sint failed0) @ '' logs lost''"

text \<open>
  The loop \<^verbatim>\<open>for !atomic.CompareAndSwapInt32(&w.failed, failed, 0) { ... }\<close> of \<^verbatim>\<open>Write\<close>.
  \<open>failed0\<close> is the outer variable \<^verbatim>\<open>failed\<close>, loaded before the send. The body declares
  a new variable of the same name with \<^verbatim>\<open>:=\<close>, so the value it loads is compared
  with \<open>-1\<close> only, and every compare-and-swap expects \<open>failed0\<close>. The result is
  \<open>True\<close> when the swap succeeded and \<open>False\<close> when the body returned from \<^verbatim>\<open>Write\<close>.
\<close>

fun reset_loop ::
  "nat \<Rightarrow> 'w env \<Rightarrow> nat \<Rightarrow> int32 \<Rightarrow> 'w asyncLogWriter \<Rightarrow> (bool \<times> 'w asyncLogWriter \<times> nat) option" where
  "reset_loop 0 env t failed0 s = None"
| "reset_loop (Suc fuel) env t failed0 s =
     (let s1 = env t s in
      if failed s1 = failed0 then Some (True, s1\<lparr>failed := 0\<rparr>, t + 1)
      else
        let s2 = env (t + 1) s1; failed' = failed s2 in
        if failed' = - 1 then Some (False, s2, t + 2)
        else reset_loop fuel env (t + 2) failed0 s2)"

text \<open>
  \<^verbatim>\<open>(*asyncLogWriter).Write\<close>. The arguments are fuel, the sink's \<^verbatim>\<open>Write\<close>, the
  environment, the number of the next atomic action, and the data. The result is the
  pair \<^verbatim>\<open>(n, err)\<close> with the struct and the number of the next atomic action
  afterwards; \<open>None\<close> when the call was still running as the fuel ran out. The atomic
  actions are the loads of \<open>closed\<close> and \<open>failed\<close>, the \<^verbatim>\<open>select\<close>, every
  compare-and-swap and load of the loop, the \<^verbatim>\<open>AddInt32\<close>, and the sink's \<^verbatim>\<open>Write\<close> of a
  closed writer; the environment acts before each of them.
\<close>

fun asyncLogWriter_Write ::
  "nat \<Rightarrow> 'w sink \<Rightarrow> 'w env \<Rightarrow> nat \<Rightarrow> bytes \<Rightarrow> 'w asyncLogWriter
     \<Rightarrow> ((int \<times> error option) \<times> 'w asyncLogWriter \<times> nat) outcome option" where
  "asyncLogWriter_Write 0 wr env t p s = None"
| "asyncLogWriter_Write (Suc fuel) wr env t p s =
     (let s0 = env t s in
      if closed s0 = 1 then
        (let sb = env (t + 1) s0 in
         case wr p (w sb) of (r, w') \<Rightarrow> Some (Returns (r, sb\<lparr>w := w'\<rparr>, t + 2)))
      else
        let n = int (length p); pcopy = p; s1 = env (t + 1) s0; failed0 = failed s1 in
        if failed0 \<noteq> - 1 then
          (let s2 = env (t + 2) s1 in
           case try_send (ch s2) pcopy of
             SendOnClosed \<Rightarrow> Some (Panics ''send on closed channel'')
           | Sent c' \<Rightarrow>
               (let s3 = s2\<lparr>ch := c'\<rparr> in
                if 0 < sint failed0 then
                  (case reset_loop fuel env (t + 3) failed0 s3 of
                     None \<Rightarrow> None
                   | Some (False, s4, t4) \<Rightarrow> Some (Returns ((n, None), s4, t4))
                   | Some (True, s4, t4) \<Rightarrow>
                       (case asyncLogWriter_Write fuel wr env t4 (notice failed0) s4 of
                          None \<Rightarrow> None
                        | Some (Panics m) \<Rightarrow> Some (Panics m)
                        | Some (Returns ((_, None), s5, t5)) \<Rightarrow> Some (Returns ((n, None), s5, t5))
                        | Some (Returns ((_, Some e), s5, t5)) \<Rightarrow>
                            (case handleInnerWriteError fuel e s5 of
                               None \<Rightarrow> None
                             | Some s6 \<Rightarrow> Some (Returns ((n, None), s6, t5)))))
                else Some (Returns ((n, None), s3, t + 3)))
           | Full \<Rightarrow>
               (let s3 = env (t + 3) s2 in
                Some (Returns ((n, None), s3\<lparr>failed := failed s3 + 1\<rparr>, t + 4))))
        else Some (Returns ((n, None), s1, t + 2)))"

text \<open>
  \<^verbatim>\<open>run\<close>, the write goroutine, executed until it exits or waits for the next value
  at \<^verbatim>\<open>range w.ch\<close>. It has exited exactly when \<open>exitCh\<close> is closed; a result with
  \<open>exitCh\<close> open is the goroutine waiting on the empty, open queue.
\<close>

fun run :: "nat \<Rightarrow> 'w sink \<Rightarrow> 'w asyncLogWriter \<Rightarrow> 'w asyncLogWriter option" where
  "run 0 wr s = None"
| "run (Suc fuel) wr s =
     (if chan_closed (exitCh s) then Some s
      else
        case buf (ch s) of
          [] \<Rightarrow>
            if chan_closed (ch s) then Some (s\<lparr>exitCh := (exitCh s)\<lparr>chan_closed := True\<rparr>\<rparr>)
            else Some s
        | b # bs \<Rightarrow>
            (let s1 = s\<lparr>ch := (ch s)\<lparr>buf := bs\<rparr>\<rparr> in
             case wr b (w s1) of
               ((_, None), w') \<Rightarrow> run fuel wr (s1\<lparr>w := w'\<rparr>)
             | ((_, Some e), w') \<Rightarrow>
                 (case handleInnerWriteError fuel e (s1\<lparr>w := w'\<rparr>) of
                    None \<Rightarrow> None
                  | Some s2 \<Rightarrow> Some (s2\<lparr>exitCh := (exitCh s2)\<lparr>chan_closed := True\<rparr>\<rparr>))))"

text \<open>
  \<^verbatim>\<open>Close\<close>, with no other producer running. \<open>Close_steps\<close> lists the struct after each of
  the three statements the first caller executes: the compare-and-swap on \<open>closed\<close>,
  \<^verbatim>\<open>close(w.ch)\<close>, and \<^verbatim>\<open><-w.exitCh\<close>, which returns once the write goroutine has
  exited. A caller whose compare-and-swap fails executes none of them.
\<close>

definition Close_steps ::
  "nat \<Rightarrow> 'w sink \<Rightarrow> 'w asyncLogWriter \<Rightarrow> 'w asyncLogWriter list outcome option" where
  "Close_steps fuel wr s =
     (if closed s = 0 then
        (let s1 = s\<lparr>closed := 1\<rparr> in
         if chan_closed (ch s1) then Some (Panics ''close of closed channel'')
         else
           let s2 = s1\<lparr>ch := (ch s1)\<lparr>chan_closed := True\<rparr>\<rparr> in
           case run fuel wr s2 of
             None \<Rightarrow> None
           | Some s3 \<Rightarrow> if chan_closed (exitCh s3) then Some (Returns [s1, s2, s3]) else None)
      else Some (Returns []))"

definition Close ::
  "nat \<Rightarrow> 'w sink \<Rightarrow> 'w asyncLogWriter \<Rightarrow> (error option \<times> 'w asyncLogWriter) outcome option" where
  "Close fuel wr s =
     (case Close_steps fuel wr s of
        None \<Rightarrow> None
      | Some (Panics m) \<Rightarrow> Some (Panics m)
      | Some (Returns tr) \<Rightarrow> Some (Returns (None, last (s # tr))))"

text \<open>
  A producer that calls \<^verbatim>\<open>Write\<close> once for each element of a list, one call after the
  other, while no other goroutine runs: the results of the calls and the struct
  afterwards.
\<close>

fun Write_calls ::
  "nat \<Rightarrow> 'w sink \<Rightarrow> bytes list \<Rightarrow> 'w asyncLogWriter
     \<Rightarrow> ((int \<times> error option) list \<times> 'w asyncLogWriter) option" where
  "Write_calls fuel wr [] s = Some ([], s)"
| "Write_calls fuel wr (p # ps) s =
     (case asyncLogWriter_Write fuel wr quiet 0 p s of
        Some (Returns (r, s', t')) \<Rightarrow>
          (case Write_calls fuel wr ps s' of
             Some (rs, s'') \<Rightarrow> Some (r # rs, s'')
           | None \<Rightarrow> None)
      | _ \<Rightarrow> None)"

text \<open>A sink that accepts every write and keeps nothing.\<close>

definition null_sink :: "unit sink" where
  "null_sink p u = ((int (length p), None), u)"

text \<open>A sink that keeps every record it receives, in order of arrival.\<close>

definition log_sink :: "bytes list sink" where
  "log_sink p u = ((int (length p), None), u @ [p])"

text \<open>
  The sink's state after it has accepted each record of a list in turn; \<open>None\<close> when
  the sink answers one of them with an error.
\<close>

fun writes_ok :: "'w sink \<Rightarrow> bytes list \<Rightarrow> 'w \<Rightarrow> 'w option" where
  "writes_ok wr [] u = Some u"
| "writes_ok wr (b # bs) u =
     (case wr b u of
        ((_, None), u') \<Rightarrow> writes_ok wr bs u'
      | ((_, Some e), u') \<Rightarrow> None)"

text \<open>An environment in which one other producer counts a lost write before action \<open>t0\<close>.\<close>

definition bump_at :: "nat \<Rightarrow> 'w env" where
  "bump_at t0 t s = (if t = t0 then s\<lparr>failed := failed s + 1\<rparr> else s)"

text \<open>A sink that refuses every write.\<close>

definition fail_sink :: "unit sink" where
  "fail_sink p u = ((0, Some (ErrSink ''down'')), u)"



text \<open>
  An environment in which the write goroutine, before action \<open>t0\<close>, gets an error from
  the sink while the queue is open: \<^verbatim>\<open>handleInnerWriteError\<close> stores \<open>-1\<close> in
  \<open>failed\<close> and empties the queue, and the goroutine exits.
\<close>

definition sink_error_at :: "nat \<Rightarrow> 'w env" where
  "sink_error_at t0 t s =
     (if t = t0
      then s\<lparr>ch := (ch s)\<lparr>buf := []\<rparr>, failed := - 1, exitCh := (exitCh s)\<lparr>chan_closed := True\<rparr>\<rparr>
      else s)"

section \<open>The file system\<close>

text \<open>
  The regular files, by path, with their contents. \<^verbatim>\<open>os.OpenFile\<close> with \<^verbatim>\<open>O_CREATE\<close> and
  \<^verbatim>\<open>os.Create\<close> add a path, \<^verbatim>\<open>os.Remove\<close> and \<^verbatim>\<open>os.Rename\<close> take one away.
\<close>

type_synonym fs = "(string \<times> bytes) list"

text \<open>
  The failures of the operating system: \<open>io op = Some e\<close> says that the operation
  \<open>op\<close> fails with \<open>e\<close> and does nothing. Under \<open>healthy\<close> no operation fails for
  a reason outside the files themselves.
\<close>

type_synonym io = "fs_op \<Rightarrow> error option"

definition healthy :: io where
  "healthy op = None"

definition IsNotExist :: "error \<Rightarrow> bool" where
  "IsNotExist e = (case e of ErrNotExist _ \<Rightarrow> True | _ \<Rightarrow> False)"

text \<open>
  An \<^verbatim>\<open>*os.File\<close> refers to a file, not to a path: it keeps working on its file when
  that is renamed, and when the file loses its name. \<open>AtPath q\<close> is the file that now has
  the path \<open>q\<close>; \<open>Unlinked c\<close> is a file without a name, with its contents.
\<close>

datatype file_ref = AtPath string | Unlinked bytes

text \<open>
  An \<^verbatim>\<open>*os.File\<close>: the name it was opened with, and the number under which the system
  keeps it while it is open.
\<close>

record os_File =
  Name :: string
  fd :: nat

text \<open>
  The state of the operating system as the writer sees it: the files, the
  \<^verbatim>\<open>*os.File\<close>s that are open with the file each refers to, and the number for the next
  one to be opened. A number is handed out once, so a file that has been closed stays
  closed whatever is opened later.
\<close>

record sys =
  disk :: fs
  open_files :: "(nat \<times> file_ref) list"
  next_fd :: nat

text \<open>
  \<^verbatim>\<open>f.Write(p)\<close> on a file opened with \<^verbatim>\<open>O_APPEND\<close>. A nil file answers
  \<open>ErrInvalid\<close>, a closed one \<open>ErrFileClosed\<close>. A write that fails appends nothing.
  The operations of the writer never remove the file of an open \<^verbatim>\<open>*os.File\<close>; should
  its path be missing all the same, the write is answered with \<open>ErrNotExist\<close>.
\<close>

definition file_Write :: "io \<Rightarrow> os_File option \<Rightarrow> bytes \<Rightarrow> sys \<Rightarrow> (int \<times> error option) \<times> sys" where
  "file_Write io fo p st =
     (case fo of
        None \<Rightarrow> ((0, Some ErrInvalid), st)
      | Some h \<Rightarrow>
          (case map_of (open_files st) (fd h) of
             None \<Rightarrow> ((0, Some ErrFileClosed), st)
           | Some r \<Rightarrow>
               (case io (OpFileWrite (Name h)) of
                  Some e \<Rightarrow> ((0, Some e), st)
                | None \<Rightarrow>
                    (case r of
                       AtPath q \<Rightarrow>
                         (case map_of (disk st) q of
                            None \<Rightarrow> ((0, Some (ErrNotExist q)), st)
                          | Some c \<Rightarrow>
                              ((int (length p), None), st\<lparr>disk := AList.update q (c @ p) (disk st)\<rparr>))
                     | Unlinked c \<Rightarrow>
                         ((int (length p), None),
                          st\<lparr>open_files := AList.update (fd h) (Unlinked (c @ p)) (open_files st)\<rparr>)))))"

text \<open>\<^verbatim>\<open>f.Stat()\<close> followed by \<^verbatim>\<open>info.Size()\<close>.\<close>

definition file_Stat_Size :: "io \<Rightarrow> os_File option \<Rightarrow> sys \<Rightarrow> error + int" where
  "file_Stat_Size io fo st =
     (case fo of
        None \<Rightarrow> Inl ErrInvalid
      | Some h \<Rightarrow>
          (case map_of (open_files st) (fd h) of
             None \<Rightarrow> Inl ErrFileClosed
           | Some r \<Rightarrow>
               (case io (OpStat (Name h)) of
                  Some e \<Rightarrow> Inl e
                | None \<Rightarrow>
                    (case r of
                       AtPath q \<Rightarrow>
                         (case map_of (disk st) q of
                            None \<Rightarrow> Inl (ErrNotExist q)
                          | Some c \<Rightarrow> Inr (int (length c)))
                     | Unlinked c \<Rightarrow> Inr (int (length c))))))"

text \<open>
  \<^verbatim>\<open>f.Close()\<close>: the file is no longer open afterwards, whether or not an error is
  reported.
\<close>

definition file_Close :: "io \<Rightarrow> os_File option \<Rightarrow> sys \<Rightarrow> error option \<times> sys" where
  "file_Close io fo st =
     (case fo of
        None \<Rightarrow> (Some ErrInvalid, st)
      | Some h \<Rightarrow>
          (case map_of (open_files st) (fd h) of
             None \<Rightarrow> (Some ErrFileClosed, st)
           | Some r \<Rightarrow>
               (io (OpFileClose (Name h)),
                st\<lparr>open_files := AList.delete (fd h) (open_files st)\<rparr>)))"

text \<open>
  \<^verbatim>\<open>os.OpenFile(path, O_APPEND|O_CREATE|O_WRONLY, ...)\<close>; \<open>op\<close> names the attempt, so that
  the first attempt of \<^verbatim>\<open>openLogFile\<close> can fail and the second succeed. The file is
  created empty when the path has none, and the new \<^verbatim>\<open>*os.File\<close> is open on the file at
  the path.
\<close>

definition os_OpenFile :: "io \<Rightarrow> fs_op \<Rightarrow> string \<Rightarrow> sys \<Rightarrow> (os_File option \<times> error option) \<times> sys" where
  "os_OpenFile io op pth st =
     (case io op of
        Some e \<Rightarrow> ((None, Some e), st)
      | None \<Rightarrow>
          ((Some \<lparr>Name = pth, fd = next_fd st\<rparr>, None),
           \<lparr>disk = (case map_of (disk st) pth of
                       None \<Rightarrow> AList.update pth [] (disk st)
                     | Some c \<Rightarrow> disk st),
            open_files = AList.update (next_fd st) (AtPath pth) (open_files st),
            next_fd = Suc (next_fd st)\<rparr>))"

text \<open>
  \<^verbatim>\<open>os.Rename\<close>. The files that are open go along: one that was open on \<open>old\<close> is now
  open on \<open>new\<close>, and one that was open on a file which \<open>new\<close> named before (\<open>tgt\<close> has
  its contents) is left with that file, which has no name any more.
\<close>

definition renamed :: "string \<Rightarrow> string \<Rightarrow> bytes option \<Rightarrow> file_ref \<Rightarrow> file_ref" where
  "renamed old new tgt r =
     (case r of
        Unlinked c \<Rightarrow> Unlinked c
      | AtPath q \<Rightarrow>
          if q = old then AtPath new
          else if q = new then (case tgt of Some c \<Rightarrow> Unlinked c | None \<Rightarrow> AtPath q)
          else AtPath q)"

definition os_Rename :: "io \<Rightarrow> string \<Rightarrow> string \<Rightarrow> sys \<Rightarrow> error option \<times> sys" where
  "os_Rename io old new st =
     (case io (OpRename old new) of
        Some e \<Rightarrow> (Some e, st)
      | None \<Rightarrow>
          (case map_of (disk st) old of
             None \<Rightarrow> (Some (ErrNotExist old), st)
           | Some c \<Rightarrow>
               (None,
                st\<lparr>disk := AList.update new c (AList.delete old (disk st)),
                   open_files :=
                     map (\<lambda>(i, r). (i, renamed old new (map_of (disk st) new) r)) (open_files st)\<rparr>)))"

text \<open>
  \<^verbatim>\<open>os.Create\<close>, \<^verbatim>\<open>os.Open\<close> and \<^verbatim>\<open>os.Remove\<close> are called by \<^verbatim>\<open>compress\<close> and
  \<^verbatim>\<open>cleanOldBackupFiles\<close> only, on the archives. Their own \<^verbatim>\<open>*os.File\<close>s are closed
  before \<^verbatim>\<open>compress\<close> returns, so these operations are given on the files alone.
\<close>

definition os_Create :: "io \<Rightarrow> string \<Rightarrow> fs \<Rightarrow> error option \<times> fs" where
  "os_Create io pth fs =
     (case io (OpCreate pth) of
        Some e \<Rightarrow> (Some e, fs)
      | None \<Rightarrow> (None, AList.update pth [] fs))"

definition os_Open :: "io \<Rightarrow> string \<Rightarrow> fs \<Rightarrow> error + bytes" where
  "os_Open io pth fs =
     (case io (OpOpen pth) of
        Some e \<Rightarrow> Inl e
      | None \<Rightarrow> (case map_of fs pth of None \<Rightarrow> Inl (ErrNotExist pth) | Some c \<Rightarrow> Inr c))"

definition os_Remove :: "io \<Rightarrow> string \<Rightarrow> fs \<Rightarrow> error option \<times> fs" where
  "os_Remove io pth fs =
     (case io (OpRemove pth) of
        Some e \<Rightarrow> (Some e, fs)
      | None \<Rightarrow>
          (case map_of fs pth of
             None \<Rightarrow> (Some (ErrNotExist pth), fs)
           | Some c \<Rightarrow> (None, AList.delete pth fs)))"

subsection \<open>\<^verbatim>\<open>filepath.Glob\<close>\<close>

text \<open>
  \<^verbatim>\<open>filepath.Match\<close> for patterns built from \<^verbatim>\<open>*\<close>, \<^verbatim>\<open>?\<close> and ordinary characters:
  \<^verbatim>\<open>*\<close> stands for any run of characters other than the separator, \<^verbatim>\<open>?\<close> for one such
  character. Character classes and the escape character are not part of the model,
  which is used below for paths without special characters only: the pattern then has
  the one \<^verbatim>\<open>*\<close> that \<^verbatim>\<open>getBackFiles\<close> puts in. \<open>hasMeta\<close>, as in Go, recognises
  every special character.
\<close>

fun Match :: "string \<Rightarrow> string \<Rightarrow> bool" where
  "Match [] nm = (nm = [])"
| "Match (c # pat) [] = (c = CHR ''*'' \<and> Match pat [])"
| "Match (c # pat) (x # xs) =
     (if c = CHR ''*'' then Match pat (x # xs) \<or> (x \<noteq> CHR ''/'' \<and> Match (c # pat) xs)
      else if c = CHR ''?'' then x \<noteq> CHR ''/'' \<and> Match pat xs
      else x = c \<and> Match pat xs)"

definition hasMeta :: "string \<Rightarrow> bool" where
  "hasMeta pth = (\<exists>c \<in> set pth. c \<in> {CHR ''*'', CHR ''?'', CHR ''['', CHR 0x5C})"

text \<open>
  \<^verbatim>\<open>filepath.Glob\<close>: the paths of the files that match the pattern, each once.
\<close>

definition Glob :: "io \<Rightarrow> string \<Rightarrow> fs \<Rightarrow> error + string list" where
  "Glob io pattern fs =
     (case io (OpGlob pattern) of
        Some e \<Rightarrow> Inl e
      | None \<Rightarrow> Inr (remdups (filter (Match pattern) (map fst fs))))"

subsection \<open>\<^verbatim>\<open>filepath.Ext\<close> and \<^verbatim>\<open>time.Format\<close>\<close>

text \<open>
  \<^verbatim>\<open>filepath.Ext\<close>: scanning from the end, the suffix that starts at the first dot met
  before a separator; empty when there is none. \<open>Ext_scan pth i\<close> has the indices
  below \<open>i\<close> still to look at.
\<close>

fun Ext_scan :: "string \<Rightarrow> nat \<Rightarrow> string" where
  "Ext_scan pth 0 = []"
| "Ext_scan pth (Suc i) =
     (if pth ! i = CHR ''/'' then []
      else if pth ! i = CHR ''.'' then drop i pth
      else Ext_scan pth i)"

definition Ext :: "string \<Rightarrow> string" where
  "Ext pth = Ext_scan pth (length pth)"

text \<open>What \<^verbatim>\<open>hal.Now()\<close> returns, as far as the layout below shows it.\<close>

record Time =
  Year :: nat
  Month :: nat
  Day :: nat
  Hour :: nat
  Minute :: nat
  Second :: nat

definition zero_pad :: "nat \<Rightarrow> nat \<Rightarrow> string" where
  "zero_pad width n = replicate (width - length (dec n)) CHR ''0'' @ dec n"

text \<open>\<^verbatim>\<open>t.Format(`2006-01-02-150405`)\<close>.\<close>

definition Format :: "Time \<Rightarrow> string" where
  "Format t =
     zero_pad 4 (Year t) @ ''-'' @ zero_pad 2 (Month t) @ ''-'' @ zero_pad 2 (Day t) @ ''-'' @
     zero_pad 2 (Hour t) @ zero_pad 2 (Minute t) @ zero_pad 2 (Second t)"

section \<open>fileLogWriter\<close>

record fileLogWriter =
  path :: string
  f :: "os_File option"
  maxLen :: int
  maxFiles :: int

text \<open>A codec stands for \<^verbatim>\<open>compress/gzip\<close>: \<open>encode c\<close> is the complete compressed stream
  for the input \<open>c\<close>; \<open>copied c\<close> is how much of it has reached the file when
  \<^verbatim>\<open>io.Copy\<close> returns, the rest being written by \<^verbatim>\<open>Close\<close>; \<open>partial c\<close> is how much
  has reached the file when \<^verbatim>\<open>io.Copy\<close> fails.\<close>

record codec =
  encode :: "bytes \<Rightarrow> bytes"
  copied :: "bytes \<Rightarrow> nat"
  partial :: "bytes \<Rightarrow> nat"

text \<open>The goroutines that \<^verbatim>\<open>recoverPartialCompressFiles\<close> and \<^verbatim>\<open>Write\<close> start.\<close>

datatype task = CompressTask string | RotateTask string string

definition openLogFile :: "io \<Rightarrow> string \<Rightarrow> sys \<Rightarrow> (os_File option \<times> error option) \<times> sys" where
  "openLogFile io pth st =
     (case os_OpenFile io (OpOpenFile pth) pth st of
        ((fo, None), st') \<Rightarrow> ((fo, None), st')
      | ((fo, Some e), st') \<Rightarrow>
          if IsNotExist e then
            (case io (OpMkdirAll pth) of
               Some e' \<Rightarrow> ((fo, Some e), st')
             | None \<Rightarrow> os_OpenFile io (OpReopenFile pth) pth st')
          else ((fo, Some e), st'))"

definition fileSize :: "io \<Rightarrow> fileLogWriter \<Rightarrow> sys \<Rightarrow> error + int" where
  "fileSize io fw st = file_Stat_Size io (f fw) st"

definition splitLogFilename :: "string \<Rightarrow> string \<times> string" where
  "splitLogFilename logfilename =
     (let ext = Ext logfilename in (take (length logfilename - length ext) logfilename, ext))"

text \<open>\<open>now\<close> is the value that the call's \<^verbatim>\<open>hal.Now()\<close> returns.\<close>

definition newBackupFilename :: "Time \<Rightarrow> string \<Rightarrow> string" where
  "newBackupFilename now logfilename =
     (let ext = Ext logfilename
      in take (length logfilename - length ext) logfilename @ ''-'' @ Format now @ ext)"

definition getBackFiles :: "io \<Rightarrow> string \<Rightarrow> string \<Rightarrow> fs \<Rightarrow> error + string list" where
  "getBackFiles io logfilename suffix fs =
     (case splitLogFilename logfilename of
        (base, ext) \<Rightarrow>
          (case Glob io (base @ ''-*'' @ ext @ suffix) fs of
             Inl e \<Rightarrow> Inl e
           | Inr files \<Rightarrow> Inr (sort files)))"

definition getCompressedFiles :: "io \<Rightarrow> string \<Rightarrow> fs \<Rightarrow> error + string list" where
  "getCompressedFiles io logfilename fs = getBackFiles io logfilename ''.gz'' fs"

definition getUncompressedFiles :: "io \<Rightarrow> string \<Rightarrow> fs \<Rightarrow> error + string list" where
  "getUncompressedFiles io logfilename fs = getBackFiles io logfilename [] fs"

text \<open>
  \<^verbatim>\<open>compress\<close>. The deferred \<^verbatim>\<open>safeClose\<close> calls only write to standard error and are
  left out, as is every other message to standard error.
\<close>

definition compress :: "io \<Rightarrow> codec \<Rightarrow> string \<Rightarrow> fs \<Rightarrow> error option \<times> fs" where
  "compress io cd logFile fs =
     (let gzfile = logFile @ ''.gz'' in
      case os_Create io gzfile fs of
        (Some e, fs1) \<Rightarrow> (Some e, fs1)
      | (None, fs1) \<Rightarrow>
          (case os_Open io logFile fs1 of
             Inl e \<Rightarrow> (Some e, fs1)
           | Inr c \<Rightarrow>
               (case io (OpCopy logFile gzfile) of
                  Some e \<Rightarrow> (Some e, AList.update gzfile (take (partial cd c) (encode cd c)) fs1)
                | None \<Rightarrow>
                    (let fs2 = AList.update gzfile (take (copied cd c) (encode cd c)) fs1 in
                     case io (OpGzipClose gzfile) of
                       Some e \<Rightarrow> (Some e, fs2)
                     | None \<Rightarrow> os_Remove io logFile (AList.update gzfile (encode cd c) fs2)))))"

text \<open>
  The subtraction of two Go \<^verbatim>\<open>int\<close>s (64 bits), and the loop of
  \<^verbatim>\<open>cleanOldBackupFiles\<close>: \<open>i\<close> is the loop variable and \<open>bound\<close> the value of
  \<^verbatim>\<open>len(files)-w.maxFiles\<close>. Indexing past the end of \<open>files\<close> panics.
\<close>

definition int64_sub :: "int \<Rightarrow> int \<Rightarrow> int" where
  "int64_sub a b = (a - b + 2 ^ 63) mod 2 ^ 64 - 2 ^ 63"

function clean_loop :: "io \<Rightarrow> string list \<Rightarrow> int \<Rightarrow> nat \<Rightarrow> fs \<Rightarrow> (error option \<times> fs) outcome" where
  "clean_loop io files bound i fs =
     (if int i < bound then
        (if i < length files then
           (case os_Remove io (files ! i) fs of
              (Some e, fs') \<Rightarrow> Returns (Some e, fs')
            | (None, fs') \<Rightarrow> clean_loop io files bound (i + 1) fs')
         else Panics ''index out of range'')
      else Returns (None, fs))"
  by pat_completeness auto
termination
  by (relation "measure (\<lambda>(io, files, bound, i, fs). length files - i)") auto

declare clean_loop.simps [simp del]

definition cleanOldBackupFiles ::
  "io \<Rightarrow> fileLogWriter \<Rightarrow> string \<Rightarrow> fs \<Rightarrow> (error option \<times> fs) outcome" where
  "cleanOldBackupFiles io fw logfilename fs =
     (case getCompressedFiles io logfilename fs of
        Inl e \<Rightarrow> Returns (Some e, fs)
      | Inr files \<Rightarrow>
          clean_loop io files (int64_sub (int (length files)) (maxFiles fw)) 0 fs)"

text \<open>
  \<^verbatim>\<open>(*fileLogWriter).Write\<close>. \<open>now1\<close> is what \<^verbatim>\<open>hal.Now()\<close> returns in the call of
  \<^verbatim>\<open>newBackupFilename\<close> that sets \<^verbatim>\<open>bakFile\<close>, \<open>now2\<close> what it returns in the call
  inside \<^verbatim>\<open>os.Rename\<close>. The result is \<^verbatim>\<open>(n, err)\<close>, the writer, the state of the
  system, and the goroutines started. \<^verbatim>\<open>w.f\<close> is assigned only by the last step, the
  call of \<^verbatim>\<open>openLogFile\<close>.
\<close>

definition fileLogWriter_Write ::
  "io \<Rightarrow> Time \<Rightarrow> Time \<Rightarrow> bytes \<Rightarrow> fileLogWriter \<Rightarrow> sys
     \<Rightarrow> (int \<times> error option) \<times> fileLogWriter \<times> sys \<times> task list" where
  "fileLogWriter_Write io now1 now2 p fw st =
     (case file_Write io (f fw) p st of
        ((n, Some e), st1) \<Rightarrow> ((n, Some e), fw, st1, [])
      | ((n, None), st1) \<Rightarrow>
          (case fileSize io fw st1 of
             Inl e \<Rightarrow> ((n, Some e), fw, st1, [])
           | Inr sz \<Rightarrow>
               if sz \<ge> maxLen fw then
                 (let fname = (case f fw of Some h \<Rightarrow> Name h | None \<Rightarrow> []) in
                  case file_Close io (f fw) st1 of
                    (Some e, st2) \<Rightarrow> ((n, Some e), fw, st2, [])
                  | (None, st2) \<Rightarrow>
                      (let bakFile = newBackupFilename now1 fname in
                       case os_Rename io fname (newBackupFilename now2 fname) st2 of
                         (Some e, st3) \<Rightarrow> ((n, Some e), fw, st3, [])
                       | (None, st3) \<Rightarrow>
                           (case openLogFile io fname st3 of
                              ((fo', Some e), st4) \<Rightarrow> ((n, Some e), fw\<lparr>f := fo'\<rparr>, st4, [])
                            | ((fo', None), st4) \<Rightarrow>
                                ((n, None), fw\<lparr>f := fo'\<rparr>, st4, [RotateTask bakFile fname]))))
               else ((n, None), fw, st1, [])))"

definition recoverPartialCompressFiles :: "io \<Rightarrow> string \<Rightarrow> fs \<Rightarrow> task list" where
  "recoverPartialCompressFiles io pth fs =
     (case getUncompressedFiles io pth fs of
        Inl e \<Rightarrow> []
      | Inr unCompressed \<Rightarrow> map CompressTask unCompressed)"

text \<open>
  \<^verbatim>\<open>NewFileLogWriter\<close>: the writer or the error, the state of the system, and the
  goroutines started.
\<close>

definition NewFileLogWriter ::
  "io \<Rightarrow> string \<Rightarrow> int \<Rightarrow> int \<Rightarrow> sys \<Rightarrow> (error + fileLogWriter) \<times> sys \<times> task list" where
  "NewFileLogWriter io pth maxLen0 maxFiles0 st =
     (case openLogFile io pth st of
        ((fo, Some e), st') \<Rightarrow> (Inl e, st', [])
      | ((fo, None), st') \<Rightarrow>
          (Inr \<lparr>path = pth, f = fo, maxLen = maxLen0, maxFiles = maxFiles0\<rparr>, st',
           recoverPartialCompressFiles io pth (disk st')))"

text \<open>
  A goroutine run from start to end while nothing else touches the files: the body of
  the function literal in \<^verbatim>\<open>recoverPartialCompressFiles\<close>, and that in \<^verbatim>\<open>Write\<close>.
\<close>

definition run_task :: "io \<Rightarrow> codec \<Rightarrow> fileLogWriter \<Rightarrow> task \<Rightarrow> fs \<Rightarrow> fs outcome" where
  "run_task io cd fw tk fs =
     (case tk of
        CompressTask item \<Rightarrow> Returns (snd (compress io cd item fs))
      | RotateTask bakFile fname \<Rightarrow>
          (case compress io cd bakFile fs of
             (Some e, fs1) \<Rightarrow> Returns fs1
           | (None, fs1) \<Rightarrow>
               (case cleanOldBackupFiles io fw fname fs1 of
                  Panics m \<Rightarrow> Panics m
                | Returns (r, fs2) \<Rightarrow> Returns fs2)))"

text \<open>A codec for examples: the stream is the input between two marks.\<close>

definition mark_codec :: codec where
  "mark_codec = \<lparr>encode = (\<lambda>c. ''<'' @ c @ ''>''), copied = (\<lambda>c. 1), partial = (\<lambda>c. 0)\<rparr>"

text \<open>
  Times that the layout shows in full: a year of four digits and the usual ranges of
  the other fields. \<open>before a b\<close> says that \<open>a\<close> is the earlier of two such times.
\<close>

definition civil :: "Time \<Rightarrow> bool" where
  "civil t \<longleftrightarrow>
     Year t < 10000 \<and> 1 \<le> Month t \<and> Month t \<le> 12 \<and> 1 \<le> Day t \<and> Day t \<le> 31 \<and>
     Hour t < 24 \<and> Minute t < 60 \<and> Second t < 60"

definition before :: "Time \<Rightarrow> Time \<Rightarrow> bool" where
  "before a b \<longleftrightarrow>
     Year a < Year b \<or> (Year a = Year b \<and>
      (Month a < Month b \<or> (Month a = Month b \<and>
       (Day a < Day b \<or> (Day a = Day b \<and>
        (Hour a < Hour b \<or> (Hour a = Hour b \<and>
         (Minute a < Minute b \<or> (Minute a = Minute b \<and> Second a < Second b)))))))))"

text \<open>
  A caller of \<^verbatim>\<open>(*fileLogWriter).Write\<close> that writes the records of a list one after the
  other; each comes with the two clock values its call would read. The results of the
  calls, the writer, the state of the system, and all goroutines started.
\<close>

fun fileLogWriter_Write_calls ::
  "io \<Rightarrow> (Time \<times> Time \<times> bytes) list \<Rightarrow> fileLogWriter \<Rightarrow> sys
     \<Rightarrow> (int \<times> error option) list \<times> fileLogWriter \<times> sys \<times> task list" where
  "fileLogWriter_Write_calls io [] fw st = ([], fw, st, [])"
| "fileLogWriter_Write_calls io ((now1, now2, p) # xs) fw st =
     (case fileLogWriter_Write io now1 now2 p fw st of
        (r, fw1, st1, ts1) \<Rightarrow>
          (case fileLogWriter_Write_calls io xs fw1 st1 of
             (rs, fw2, st2, ts2) \<Rightarrow> (r # rs, fw2, st2, ts1 @ ts2)))"

section \<open>Properties of asyncLogWriter\<close>

subsection \<open>Calls on an open writer while nothing else runs\<close>

lemma Write_open_enqueue:
  assumes "closed s \<noteq> 1" and "failed s = 0" and "\<not> chan_closed (ch s)"
    and "length (buf (ch s)) < cap (ch s)"
  shows "asyncLogWriter_Write (Suc fuel) wr quiet t p s =
    Some (Returns ((int (length p), None), s\<lparr>ch := (ch s)\<lparr>buf := buf (ch s) @ [p]\<rparr>\<rparr>, t + 3))"
  using assms by (simp add: quiet_def try_send_def Let_def)

lemma Write_open_drop:
  assumes "closed s \<noteq> 1" and "failed s \<noteq> - 1" and "\<not> chan_closed (ch s)"
    and "cap (ch s) \<le> length (buf (ch s))"
  shows "asyncLogWriter_Write (Suc fuel) wr quiet t p s =
    Some (Returns ((int (length p), None), s\<lparr>failed := failed s + 1\<rparr>, t + 4))"
  using assms by (simp add: quiet_def try_send_def Let_def)

lemma Write_disabled:
  assumes "closed s \<noteq> 1" and "failed s = - 1"
  shows "asyncLogWriter_Write (Suc fuel) wr quiet t p s = Some (Returns ((int (length p), None), s, t + 2))"
  using assms by (simp add: quiet_def Let_def)

lemma of_nat_neq_minus1: "j < 2 ^ 32 - 1 \<Longrightarrow> (of_nat j :: int32) \<noteq> - 1"
proof
  assume a: "j < 2 ^ 32 - 1" and b: "(of_nat j :: int32) = - 1"
  have "unat (of_nat j :: int32) = j" using a by (simp add: unat_of_nat)
  moreover have "unat (- 1 :: int32) = 2 ^ 32 - 1" by (simp add: unsigned_minus_1_eq_mask mask_eq_exp_minus_1)
  ultimately show False using a b by simp
qed

lemma sint_of_nat_small: "k < 2 ^ 31 \<Longrightarrow> sint (of_nat k :: int32) = int k"
  by (simp add: signed_of_nat signed_take_bit_int_eq_self)


lemma Write_calls_append:
  "Write_calls fuel wr (ps @ qs) s =
     (case Write_calls fuel wr ps s of
        Some (rs, s') \<Rightarrow>
          (case Write_calls fuel wr qs s' of
             Some (rs', s'') \<Rightarrow> Some (rs @ rs', s'')
           | None \<Rightarrow> None)
      | None \<Rightarrow> None)"
  by (induction ps arbitrary: s) (auto split: option.splits outcome.splits)

lemma Write_calls_enqueue:
  assumes "closed s \<noteq> 1" and "failed s = 0" and "\<not> chan_closed (ch s)"
    and "length (buf (ch s)) + length ps \<le> cap (ch s)"
  shows "Write_calls (Suc fuel) wr ps s =
    Some (map (\<lambda>p. (int (length p), None)) ps, s\<lparr>ch := (ch s)\<lparr>buf := buf (ch s) @ ps\<rparr>\<rparr>)"
  using assms
proof (induction ps arbitrary: s)
  case Nil
  then show ?case by simp
next
  case (Cons p ps)
  let ?s' = "s\<lparr>ch := (ch s)\<lparr>buf := buf (ch s) @ [p]\<rparr>\<rparr>"
  have step: "asyncLogWriter_Write (Suc fuel) wr quiet 0 p s =
      Some (Returns ((int (length p), None), ?s', 0 + 3))"
    using Cons.prems by (intro Write_open_enqueue) auto
  have rest: "Write_calls (Suc fuel) wr ps ?s' =
      Some (map (\<lambda>p. (int (length p), None)) ps, ?s'\<lparr>ch := (ch ?s')\<lparr>buf := buf (ch ?s') @ ps\<rparr>\<rparr>)"
    using Cons.prems by (intro Cons.IH) auto
  show ?case
    unfolding Write_calls.simps step using rest by simp
qed

lemma Write_calls_drop:
  assumes "closed s \<noteq> 1" and "\<not> chan_closed (ch s)" and "cap (ch s) \<le> length (buf (ch s))"
    and "failed s = of_nat j" and "j + length ps < 2 ^ 32 - 1"
  shows "Write_calls (Suc fuel) wr ps s =
    Some (map (\<lambda>p. (int (length p), None)) ps, s\<lparr>failed := of_nat (j + length ps)\<rparr>)"
  using assms
proof (induction ps arbitrary: s j)
  case Nil
  then show ?case by simp
next
  case (Cons p ps)
  let ?s' = "s\<lparr>failed := failed s + 1\<rparr>"
  have "failed s \<noteq> - 1"
    using Cons.prems of_nat_neq_minus1 [of j] by simp
  then have step: "asyncLogWriter_Write (Suc fuel) wr quiet 0 p s =
      Some (Returns ((int (length p), None), ?s', 0 + 4))"
    using Cons.prems by (intro Write_open_drop) auto
  have rest: "Write_calls (Suc fuel) wr ps ?s' =
      Some (map (\<lambda>p. (int (length p), None)) ps, ?s'\<lparr>failed := of_nat (Suc j + length ps)\<rparr>)"
    using Cons.prems by (intro Cons.IH) auto
  show ?case
    unfolding Write_calls.simps step using rest by simp
qed

lemma Write_calls_disabled:
  assumes "closed s \<noteq> 1" and "failed s = - 1"
  shows "Write_calls (Suc fuel) wr ps s = Some (map (\<lambda>p. (int (length p), None)) ps, s)"
  using assms by (induction ps) (simp_all add: Write_disabled del: asyncLogWriter_Write.simps)

subsection \<open>Overflow of the queue\<close>

text \<open>
  Claim C1, with the bound that the counter's type sets. On a new writer whose write
  goroutine takes nothing from the queue, \<open>500 + k\<close> calls of \<^verbatim>\<open>Write\<close> with
  \<open>k < 2 ^ 31\<close> all return \<^verbatim>\<open>(len(p), nil)\<close>; the queue then holds the data of the
  first 500 calls, in order, and \<open>failed\<close> holds \<open>k\<close>.
\<close>

theorem stalled_drain_loss_count:
  assumes "length ps = 500 + k" and "k < 2 ^ 31"
  shows "Write_calls (Suc fuel) wr ps (NewAsyncLogWriter w0) =
     Some (map (\<lambda>p. (int (length p), None)) ps,
           (NewAsyncLogWriter w0)\<lparr>ch := (make_chan 500)\<lparr>buf := take 500 ps\<rparr>, failed := of_nat k\<rparr>)
   \<and> sint (of_nat k :: int32) = int k"
proof -
  let ?s0 = "NewAsyncLogWriter w0 :: 'a asyncLogWriter"
  let ?s1 = "?s0\<lparr>ch := (make_chan 500)\<lparr>buf := take 500 ps\<rparr>\<rparr>"
  have a: "Write_calls (Suc fuel) wr (take 500 ps) ?s0 =
      Some (map (\<lambda>p. (int (length p), None)) (take 500 ps), ?s1)"
    using assms Write_calls_enqueue [of ?s0 "take 500 ps" fuel wr]
    by (simp add: NewAsyncLogWriter_def make_chan_def)
  have b: "Write_calls (Suc fuel) wr (drop 500 ps) ?s1 =
      Some (map (\<lambda>p. (int (length p), None)) (drop 500 ps), ?s1\<lparr>failed := of_nat k\<rparr>)"
    using assms Write_calls_drop [of ?s1 0 "drop 500 ps" fuel wr]
    by (simp add: NewAsyncLogWriter_def make_chan_def)
  have "Write_calls (Suc fuel) wr (take 500 ps @ drop 500 ps) ?s0 =
      Some (map (\<lambda>p. (int (length p), None)) (take 500 ps) @ map (\<lambda>p. (int (length p), None)) (drop 500 ps),
            ?s1\<lparr>failed := of_nat k\<rparr>)"
    unfolding Write_calls_append a using b by simp
  then show ?thesis
    using assms(2) by (simp add: sint_of_nat_small flip: map_append)
qed


theorem stalled_drain_loss_count_witness:
  "Write_calls 1 null_sink (replicate 501 ''x'') (NewAsyncLogWriter ()) =
     Some (replicate 501 (1, None),
           (NewAsyncLogWriter ())\<lparr>ch := (make_chan 500)\<lparr>buf := replicate 500 ''x''\<rparr>, failed := 1\<rparr>)"
  using stalled_drain_loss_count [of "replicate 501 ''x''" 1 0 null_sink "()"]
  by (simp add: map_replicate_const)

text \<open>
  Without that bound the counter does not hold \<open>k\<close>: it is an \<^verbatim>\<open>int32\<close>, and after
  \<open>500 + 2 ^ 31\<close> calls it reads \<open>- 2 ^ 31\<close>.
\<close>

theorem loss_count_wraps_counterexample:
  "map_option (sint \<circ> failed \<circ> snd)
     (Write_calls 1 null_sink (replicate (500 + 2 ^ 31) ''x'') (NewAsyncLogWriter ())) =
   Some (- 2147483648)"
proof -
  let ?s0 = "NewAsyncLogWriter () :: unit asyncLogWriter"
  let ?s1 = "?s0\<lparr>ch := (ch ?s0)\<lparr>buf := buf (ch ?s0) @ replicate 500 ''x''\<rparr>\<rparr>"
  have a: "Write_calls (Suc 0) null_sink (replicate 500 ''x'') ?s0 =
      Some (map (\<lambda>p. (int (length p), None)) (replicate 500 ''x''), ?s1)"
    by (rule Write_calls_enqueue) (simp_all add: NewAsyncLogWriter_def make_chan_def)
  have b: "Write_calls (Suc 0) null_sink (replicate (2 ^ 31) ''x'') ?s1 =
      Some (map (\<lambda>p. (int (length p), None)) (replicate (2 ^ 31) ''x''),
            ?s1\<lparr>failed := of_nat (0 + length (replicate (2 ^ 31 :: nat) ''x''))\<rparr>)"
    by (rule Write_calls_drop) (simp_all add: NewAsyncLogWriter_def make_chan_def)
  have c: "sint (of_nat (2 ^ 31) :: int32) = - 2147483648"
    by simp
  show ?thesis
    unfolding replicate_add Write_calls_append One_nat_def a using b c by simp
qed

subsection \<open>\<^verbatim>\<open>drain\<close>\<close>

lemma drain_open:
  "\<not> chan_closed (ch s) \<Longrightarrow> length (buf (ch s)) < fuel \<Longrightarrow>
     drain fuel s = Some (s\<lparr>ch := (ch s)\<lparr>buf := []\<rparr>\<rparr>)"
proof (induction fuel arbitrary: s)
  case 0
  then show ?case by simp
next
  case (Suc fuel)
  show ?case
  proof (cases "buf (ch s)")
    case Nil
    then have "(ch s)\<lparr>buf := []\<rparr> = ch s"
      by (metis chan.surjective chan.update_convs(1))
    with Nil Suc.prems show ?thesis by (simp add: try_recv_def)
  next
    case (Cons b bs)
    with Suc.prems Suc.IH [of "s\<lparr>ch := (ch s)\<lparr>buf := bs\<rparr>\<rparr>"] show ?thesis
      by (simp add: try_recv_def)
  qed
qed

lemma drain_closed: "chan_closed (ch s) \<Longrightarrow> drain fuel s = None"
  by (induction fuel arbitrary: s) (auto simp: try_recv_def split: list.splits)

subsection \<open>The notice of lost writes\<close>


text \<open>
  Whatever the other goroutines do: when a compare-and-swap of the loop succeeds, the
  counter held exactly the value the call reports, and it is 0 right after.
\<close>

lemma reset_loop_exact:
  assumes "reset_loop fuel env t failed0 s = Some (True, s', t')"
  shows "\<exists>u. failed u = failed0 \<and> s' = u\<lparr>failed := 0\<rparr>"
  using assms
proof (induction fuel arbitrary: t s)
  case 0
  then show ?case by simp
next
  case (Suc fuel)
  then show ?case
    by (auto simp: Let_def split: if_splits)
qed












subsection \<open>The reset loop under interference\<close>

lemma reset_loop_stuck:
  assumes "\<And>t' u. t \<le> t' \<Longrightarrow> env t' u = u" and "failed s \<noteq> failed0" and "failed s \<noteq> - 1"
  shows "reset_loop fuel env t failed0 s = None"
  using assms
proof (induction fuel arbitrary: t)
  case 0
  then show ?case by simp
next
  case (Suc fuel)
  have "reset_loop fuel env (t + 2) failed0 s = None"
    using Suc.prems by (intro Suc.IH) auto
  then show ?case
    using Suc.prems by (simp add: Let_def)
qed

lemma reset_loop_aborts:
  assumes "failed (env t s) \<noteq> failed0" and "failed (env (t + 1) (env t s)) = - 1"
  shows "reset_loop (Suc fuel) env t failed0 s = Some (False, env (t + 1) (env t s), t + 2)"
  using assms by (simp add: Let_def)

text \<open>
  Claim C9 does not hold of the code. The writer has counted one lost write and its
  queue is empty. A call of \<^verbatim>\<open>Write\<close> loads \<open>failed = 1\<close> and queues its data; before
  its first compare-and-swap another producer counts a lost write, so the counter is 2.
  Nothing else happens afterwards. Every compare-and-swap of the call expects 1, the
  counter stays 2, and the call runs out of every amount of fuel: it never returns.
\<close>

theorem reset_loop_spins:
  "asyncLogWriter_Write fuel null_sink (bump_at 3) 0 ''x'' ((NewAsyncLogWriter ())\<lparr>failed := 1\<rparr>) = None"
proof (cases fuel)
  case 0
  then show ?thesis by simp
next
  case (Suc n)
  let ?s3 = "(NewAsyncLogWriter ())\<lparr>failed := 1, ch := (make_chan 500)\<lparr>buf := [''x'']\<rparr>\<rparr>"
  have loop: "reset_loop n (bump_at 3) 3 1 ?s3 = None"
  proof (cases n)
    case 0
    then show ?thesis by simp
  next
    case (Suc m)
    have "reset_loop m (bump_at 3) (3 + 2) 1 (?s3\<lparr>failed := 2\<rparr>) = None"
      by (rule reset_loop_stuck) (simp_all add: bump_at_def)
    then show ?thesis
      using Suc by (simp add: Let_def bump_at_def)
  qed
  show ?thesis
    unfolding Suc asyncLogWriter_Write.simps
    using loop by (simp add: Let_def bump_at_def NewAsyncLogWriter_def make_chan_def try_send_def)
qed

subsection \<open>The write goroutine\<close>

lemma run_exited: "chan_closed (exitCh s) \<Longrightarrow> run (Suc fuel) wr s = Some s"
  by simp

lemma run_prefix:
  assumes "\<not> chan_closed (exitCh s)" and "buf (ch s) = qa @ qb" and "writes_ok wr qa (w s) = Some u"
  shows "run (length qa + fuel) wr s = run fuel wr (s\<lparr>w := u, ch := (ch s)\<lparr>buf := qb\<rparr>\<rparr>)"
  using assms
proof (induction qa arbitrary: s)
  case Nil
  then have "(ch s)\<lparr>buf := qb\<rparr> = ch s"
    by (metis append_Nil chan.surjective chan.update_convs(1))
  moreover have "u = w s" using Nil by simp
  ultimately show ?case by simp
next
  case (Cons b qa)
  obtain n u1 where wr: "wr b (w s) = ((n, None), u1)" and rest: "writes_ok wr qa u1 = Some u"
    using Cons.prems(3) by (auto split: prod.splits option.splits)
  let ?s1 = "s\<lparr>ch := (ch s)\<lparr>buf := qa @ qb\<rparr>, w := u1\<rparr>"
  have "run (length qa + fuel) wr ?s1 = run fuel wr (?s1\<lparr>w := u, ch := (ch ?s1)\<lparr>buf := qb\<rparr>\<rparr>)"
    using Cons.prems rest by (intro Cons.IH) auto
  then show ?case
    using Cons.prems wr by (simp add: Let_def)
qed

lemma run_error:
  assumes "\<not> chan_closed (exitCh s)" and "\<not> chan_closed (ch s)" and "buf (ch s) = b # qb"
    and "wr b (w s) = ((n, Some e), u')" and "length qb < fuel"
  shows "run (Suc fuel) wr s =
    Some (s\<lparr>w := u', ch := (ch s)\<lparr>buf := []\<rparr>, failed := - 1,
            exitCh := (exitCh s)\<lparr>chan_closed := True\<rparr>\<rparr>)"
proof -
  let ?s1 = "s\<lparr>ch := (ch s)\<lparr>buf := qb\<rparr>, w := u', failed := - 1\<rparr>"
  have "drain fuel ?s1 = Some (?s1\<lparr>ch := (ch ?s1)\<lparr>buf := []\<rparr>\<rparr>)"
    using assms by (intro drain_open) auto
  then show ?thesis
    using assms by (simp add: Let_def handleInnerWriteError_def)
qed

lemma run_flush:
  assumes "\<not> chan_closed (exitCh s)" and "chan_closed (ch s)"
    and "writes_ok wr (buf (ch s)) (w s) = Some u" and "length (buf (ch s)) < fuel"
  shows "run fuel wr s =
    Some (s\<lparr>w := u, ch := (ch s)\<lparr>buf := []\<rparr>, exitCh := (exitCh s)\<lparr>chan_closed := True\<rparr>\<rparr>)"
proof -
  obtain m where fuel: "fuel = length (buf (ch s)) + Suc m"
    using assms(4) by (metis less_imp_Suc_add add_Suc_right)
  have "run (length (buf (ch s)) + Suc m) wr s = run (Suc m) wr (s\<lparr>w := u, ch := (ch s)\<lparr>buf := []\<rparr>\<rparr>)"
    using assms by (intro run_prefix) auto
  then show ?thesis
    unfolding fuel using assms by simp
qed

text \<open>
  When the queue has been closed, \<^verbatim>\<open>drain\<close> receives the zero value again and again:
  a sink error during the flush of \<^verbatim>\<open>Close\<close> leaves the goroutine in that loop.
\<close>

lemma run_error_closed_queue:
  assumes "\<not> chan_closed (exitCh s)" and "chan_closed (ch s)" and "buf (ch s) = b # qb"
    and "wr b (w s) = ((n, Some e), u')"
  shows "run fuel wr s = None"
proof (cases fuel)
  case 0
  then show ?thesis by simp
next
  case (Suc m)
  then show ?thesis
    using assms by (simp add: Let_def handleInnerWriteError_def drain_closed)
qed

text \<open>
  What holds while the queue is open. The goroutine is alive and the queue holds
  \<open>qa @ b # qb\<close>; the sink accepts the records of \<open>qa\<close> and answers \<open>b\<close> with an error.
  Then the goroutine ends with \<open>failed = -1\<close>, an empty queue, \<open>exitCh\<close> closed, and the
  sink as the failed write of \<open>b\<close> left it: no record of \<open>qb\<close> was written. Run again it
  does nothing. Every later call of \<^verbatim>\<open>Write\<close> returns \<^verbatim>\<open>(len(p), nil)\<close> and changes neither
  the sink nor the queue.
\<close>

lemma sink_error_on_open_queue:
  assumes "closed s \<noteq> 1" and "\<not> chan_closed (ch s)" and "\<not> chan_closed (exitCh s)"
    and "buf (ch s) = qa @ b # qb" and "writes_ok wr qa (w s) = Some u"
    and "wr b u = ((n, Some e), u')" and "length (buf (ch s)) < fuel"
  shows "(let s' = s\<lparr>w := u', ch := (ch s)\<lparr>buf := []\<rparr>, failed := - 1,
                     exitCh := (exitCh s)\<lparr>chan_closed := True\<rparr>\<rparr>
          in run fuel wr s = Some s'
           \<and> run (Suc fuel') wr s' = Some s'
           \<and> Write_calls (Suc fuel'') wr ps s' = Some (map (\<lambda>p. (int (length p), None)) ps, s'))"
proof -
  let ?s1 = "s\<lparr>w := u, ch := (ch s)\<lparr>buf := b # qb\<rparr>\<rparr>"
  let ?s' = "s\<lparr>w := u', ch := (ch s)\<lparr>buf := []\<rparr>, failed := - 1,
               exitCh := (exitCh s)\<lparr>chan_closed := True\<rparr>\<rparr>"
  obtain m where fuel: "fuel = length qa + Suc m" and m: "length qb < m"
  proof
    show "fuel = length qa + Suc (fuel - length qa - 1)" using assms(4,7) by simp
    show "length qb < fuel - length qa - 1" using assms(4,7) by simp
  qed
  have "run (length qa + Suc m) wr s = run (Suc m) wr ?s1"
    using assms by (intro run_prefix) auto
  also have "\<dots> = Some (?s1\<lparr>w := u', ch := (ch ?s1)\<lparr>buf := []\<rparr>, failed := - 1,
      exitCh := (exitCh ?s1)\<lparr>chan_closed := True\<rparr>\<rparr>)"
    using assms m by (intro run_error [of ?s1 b qb wr n e u' m]) auto
  finally have a: "run fuel wr s = Some ?s'"
    unfolding fuel by simp
  have b: "run (Suc fuel') wr ?s' = Some ?s'"
    by (rule run_exited) simp
  have c: "Write_calls (Suc fuel'') wr ps ?s' = Some (map (\<lambda>p. (int (length p), None)) ps, ?s')"
    using assms(1) by (intro Write_calls_disabled) auto
  show ?thesis
    unfolding Let_def using a b c by blast
qed

lemma sink_error_on_open_queue_example:
  "run 3 fail_sink ((NewAsyncLogWriter ())\<lparr>ch := (make_chan 500)\<lparr>buf := [''a'', ''b'']\<rparr>\<rparr>) =
     Some \<lparr>w = (), ch = \<lparr>buf = [], cap = 500, chan_closed = False\<rparr>, failed = - 1, closed = 0,
        exitCh = \<lparr>buf = [], cap = 0, chan_closed = True\<rparr>\<rparr>
   \<and> Write_calls 1 fail_sink [''c'', ''dd'']
       \<lparr>w = (), ch = \<lparr>buf = [], cap = 500, chan_closed = False\<rparr>, failed = - 1, closed = 0,
        exitCh = \<lparr>buf = [], cap = 0, chan_closed = True\<rparr>\<rparr> =
     Some ([(1, None), (2, None)],
       \<lparr>w = (), ch = \<lparr>buf = [], cap = 500, chan_closed = False\<rparr>, failed = - 1, closed = 0,
        exitCh = \<lparr>buf = [], cap = 0, chan_closed = True\<rparr>\<rparr>)"
  using sink_error_on_open_queue [of "(NewAsyncLogWriter ())\<lparr>ch := (make_chan 500)\<lparr>buf := [''a'', ''b'']\<rparr>\<rparr>"
      "[]" "''a''" "[''b'']" fail_sink "()" 0 "ErrSink ''down''" "()" 3 0 0 "[''c'', ''dd'']"]
  by (simp add: NewAsyncLogWriter_def make_chan_def fail_sink_def Let_def)

text \<open>
  The value \<open>-1\<close> does not stay when a call of \<^verbatim>\<open>Write\<close> is on its way to count a lost
  write. The queue is full; the call has taken the default branch of its \<^verbatim>\<open>select\<close>;
  before its \<^verbatim>\<open>AddInt32\<close> the goroutine meets the sink error. The addition then turns
  \<open>-1\<close> into 0: the writer accepts records again, which no goroutine will write.
\<close>

lemma disabled_counter_incremented:
  "asyncLogWriter_Write 1 fail_sink (sink_error_at 3) 0 ''x''
     ((NewAsyncLogWriter ())\<lparr>ch := (make_chan 500)\<lparr>buf := replicate 500 ''y''\<rparr>\<rparr>) =
   Some (Returns ((1, None),
     \<lparr>w = (), ch = \<lparr>buf = [], cap = 500, chan_closed = False\<rparr>, failed = 0, closed = 0,
      exitCh = \<lparr>buf = [], cap = 0, chan_closed = True\<rparr>\<rparr>, 4))"
  by (simp add: sink_error_at_def NewAsyncLogWriter_def make_chan_def try_send_def Let_def)

text \<open>
  Claim C3 does not hold of the code. \<^verbatim>\<open>Close\<close> has set \<open>closed\<close> and closed the queue,
  which holds two records, and waits for the goroutine; the sink answers the first record
  with an error. \<^verbatim>\<open>handleInnerWriteError\<close> stores \<open>-1\<close> and calls \<^verbatim>\<open>drain\<close>, whose
  \<^verbatim>\<open>select\<close> never takes the default branch on a closed channel: after the second
  record it receives the zero value again and again. The goroutine runs out of every
  amount of fuel: it never reaches \<^verbatim>\<open>close(w.exitCh)\<close>, and neither the goroutine nor
  \<^verbatim>\<open>Close\<close> ever ends.
\<close>

theorem sink_error_during_flush_never_exits:
  "run fuel fail_sink
     \<lparr>w = (), ch = \<lparr>buf = [''a'', ''b''], cap = 500, chan_closed = True\<rparr>, failed = 0, closed = 1,
      exitCh = \<lparr>buf = [], cap = 0, chan_closed = False\<rparr>\<rparr> = None
   \<and> Close fuel fail_sink ((NewAsyncLogWriter ())\<lparr>ch := (make_chan 500)\<lparr>buf := [''a'', ''b'']\<rparr>\<rparr>) = None"
proof -
  let ?s2 = "\<lparr>w = (), ch = \<lparr>buf = [''a'', ''b''], cap = 500, chan_closed = True\<rparr>, failed = 0,
    closed = 1, exitCh = \<lparr>buf = [], cap = 0, chan_closed = False\<rparr>\<rparr> :: unit asyncLogWriter"
  have r: "run fuel fail_sink ?s2 = None"
    by (rule run_error_closed_queue [where b = "''a''" and qb = "[''b'']" and n = 0
          and e = "ErrSink ''down''" and u' = "()"])
      (simp_all add: fail_sink_def)
  then have "Close fuel fail_sink ((NewAsyncLogWriter ())\<lparr>ch := (make_chan 500)\<lparr>buf := [''a'', ''b'']\<rparr>\<rparr>) = None"
    by (simp add: Close_def Close_steps_def Let_def NewAsyncLogWriter_def make_chan_def)
  with r show ?thesis
    by blast
qed

subsection \<open>Close\<close>

text \<open>
  Claim C8, with the order the code has. On an open writer with a live goroutine and a
  sink that accepts the queued records, the first \<^verbatim>\<open>Close\<close> sets \<open>closed\<close> to 1, then
  closes the queue, then waits until the goroutine has written the queued records and
  exited, and returns nil. A second \<^verbatim>\<open>Close\<close> executes none of the three steps and
  returns nil with the struct unchanged.
\<close>

theorem Close_order:
  assumes "closed s = 0" and "\<not> chan_closed (ch s)" and "\<not> chan_closed (exitCh s)"
    and "writes_ok wr (buf (ch s)) (w s) = Some u" and "length (buf (ch s)) < fuel"
  shows "(let s1 = s\<lparr>closed := 1\<rparr>;
              s2 = s1\<lparr>ch := (ch s)\<lparr>chan_closed := True\<rparr>\<rparr>;
              s3 = s2\<lparr>w := u, ch := (ch s)\<lparr>buf := [], chan_closed := True\<rparr>,
                      exitCh := (exitCh s)\<lparr>chan_closed := True\<rparr>\<rparr>
          in Close_steps fuel wr s = Some (Returns [s1, s2, s3])
           \<and> Close fuel wr s = Some (Returns (None, s3))
           \<and> Close_steps fuel' wr s3 = Some (Returns [])
           \<and> Close fuel' wr s3 = Some (Returns (None, s3)))"
proof -
  let ?s1 = "s\<lparr>closed := 1\<rparr>"
  let ?s2 = "?s1\<lparr>ch := (ch s)\<lparr>chan_closed := True\<rparr>\<rparr>"
  let ?s3 = "?s2\<lparr>w := u, ch := (ch s)\<lparr>buf := [], chan_closed := True\<rparr>,
               exitCh := (exitCh s)\<lparr>chan_closed := True\<rparr>\<rparr>"
  have "run fuel wr ?s2 = Some (?s2\<lparr>w := u, ch := (ch ?s2)\<lparr>buf := []\<rparr>,
      exitCh := (exitCh ?s2)\<lparr>chan_closed := True\<rparr>\<rparr>)"
    using assms by (intro run_flush) auto
  then have run: "run fuel wr ?s2 = Some ?s3"
    by simp
  have steps: "Close_steps fuel wr s = Some (Returns [?s1, ?s2, ?s3])"
    using assms(1,2) run by (simp add: Close_steps_def Let_def)
  have again: "Close_steps fuel' wr ?s3 = Some (Returns [])"
    by (simp add: Close_steps_def)
  show ?thesis
    unfolding Let_def Close_def steps again by simp
qed

theorem Close_order_witness:
  "Close 2 log_sink ((NewAsyncLogWriter [])\<lparr>ch := (make_chan 500)\<lparr>buf := [''a'']\<rparr>\<rparr>) =
     Some (Returns (None,
       \<lparr>w = [''a''], ch = \<lparr>buf = [], cap = 500, chan_closed = True\<rparr>, failed = 0, closed = 1,
        exitCh = \<lparr>buf = [], cap = 0, chan_closed = True\<rparr>\<rparr>))"
  using Close_order [of "(NewAsyncLogWriter [])\<lparr>ch := (make_chan 500)\<lparr>buf := [''a'']\<rparr>\<rparr>"
      log_sink "[''a'']" 2 0]
  by (simp add: NewAsyncLogWriter_def make_chan_def log_sink_def Let_def)

text \<open>
  The flag is not set last: after the first step \<open>closed\<close> is 1 while the queue is
  still open and holds its record, and the goroutine has not exited.
\<close>

theorem Close_sets_flag_first_counterexample:
  "Close_steps 2 log_sink ((NewAsyncLogWriter [])\<lparr>ch := (make_chan 500)\<lparr>buf := [''a'']\<rparr>\<rparr>) =
     Some (Returns
       [\<lparr>w = [], ch = \<lparr>buf = [''a''], cap = 500, chan_closed = False\<rparr>, failed = 0, closed = 1,
         exitCh = \<lparr>buf = [], cap = 0, chan_closed = False\<rparr>\<rparr>,
        \<lparr>w = [], ch = \<lparr>buf = [''a''], cap = 500, chan_closed = True\<rparr>, failed = 0, closed = 1,
         exitCh = \<lparr>buf = [], cap = 0, chan_closed = False\<rparr>\<rparr>,
        \<lparr>w = [''a''], ch = \<lparr>buf = [], cap = 500, chan_closed = True\<rparr>, failed = 0, closed = 1,
         exitCh = \<lparr>buf = [], cap = 0, chan_closed = True\<rparr>\<rparr>])"
  by (simp add: Close_steps_def NewAsyncLogWriter_def make_chan_def log_sink_def Let_def
      numeral_2_eq_2)

text \<open>
  A call of \<^verbatim>\<open>Write\<close> that arrives after the first step goes to the sink at once, ahead
  of the record that is still queued.
\<close>

lemma Write_during_Close_bypasses_queue:
  "asyncLogWriter_Write 1 log_sink quiet 0 ''b''
     \<lparr>w = [], ch = \<lparr>buf = [''a''], cap = 500, chan_closed = False\<rparr>, failed = 0, closed = 1,
      exitCh = \<lparr>buf = [], cap = 0, chan_closed = False\<rparr>\<rparr> =
   Some (Returns ((1, None),
     \<lparr>w = [''b''], ch = \<lparr>buf = [''a''], cap = 500, chan_closed = False\<rparr>, failed = 0, closed = 1,
      exitCh = \<lparr>buf = [], cap = 0, chan_closed = False\<rparr>\<rparr>, 2))"
  by (simp add: quiet_def log_sink_def)

section \<open>Properties of fileLogWriter\<close>

subsection \<open>Names of rotated files\<close>

lemma Ext_scan_drop: "i \<le> length pth \<Longrightarrow> \<exists>k\<le>length pth. Ext_scan pth i = drop k pth"
proof (induction i)
  case 0
  then show ?case by (intro exI [of _ "length pth"]) simp
next
  case (Suc i)
  then show ?case
    by (cases "pth ! i = CHR ''/''"; cases "pth ! i = CHR ''.''")
      (auto intro: exI [of _ "length pth"] exI [of _ i])
qed

lemma Ext_drop: "\<exists>k\<le>length pth. Ext pth = drop k pth"
  unfolding Ext_def by (rule Ext_scan_drop) simp

lemma base_Ext: "take (length pth - length (Ext pth)) pth @ Ext pth = pth"
proof -
  obtain k where "k \<le> length pth" and "Ext pth = drop k pth"
    using Ext_drop by blast
  then show ?thesis by simp
qed

lemma splitLogFilename_append: "splitLogFilename pth = (b, e) \<Longrightarrow> b @ e = pth"
  by (auto simp: splitLogFilename_def Let_def base_Ext)

lemma newBackupFilename_split:
  "newBackupFilename now pth =
     fst (splitLogFilename pth) @ ''-'' @ Format now @ snd (splitLogFilename pth)"
  by (simp add: newBackupFilename_def splitLogFilename_def Let_def)

lemma length_newBackupFilename:
  "length (newBackupFilename now pth) = length pth + 1 + length (Format now)"
proof -
  have "length (take (length pth - length (Ext pth)) pth @ Ext pth) = length pth"
    by (simp only: base_Ext)
  then show ?thesis
    by (simp add: newBackupFilename_def Let_def)
qed

lemma newBackupFilename_neq: "newBackupFilename now pth \<noteq> pth"
  using length_newBackupFilename [of now pth] by auto

lemma newBackupFilename_eq_iff:
  "newBackupFilename a pth = newBackupFilename b pth \<longleftrightarrow> Format a = Format b"
  by (simp add: newBackupFilename_def Let_def)

lemma bak_before: "newBackupFilename \<lparr>Year = 2024, Month = 3, Day = 9, Hour = 23, Minute = 59, Second = 59\<rparr>
    ''app.log'' = ''app-2024-03-09-235959.log''"
  by code_simp

lemma bak_after: "newBackupFilename \<lparr>Year = 2024, Month = 3, Day = 10, Hour = 0, Minute = 0, Second = 0\<rparr>
    ''app.log'' = ''app-2024-03-10-000000.log''"
  by code_simp

subsection \<open>Rotation\<close>

lemma openLogFile_healthy:
  "openLogFile healthy pth st =
     ((Some \<lparr>Name = pth, fd = next_fd st\<rparr>, None),
      \<lparr>disk = (case map_of (disk st) pth of
                  None \<Rightarrow> AList.update pth [] (disk st)
                | Some c \<Rightarrow> disk st),
       open_files = AList.update (next_fd st) (AtPath pth) (open_files st),
       next_fd = Suc (next_fd st)\<rparr>)"
  by (simp add: openLogFile_def os_OpenFile_def healthy_def)

lemma map_of_renamed:
  "map_of (map (\<lambda>(i, r). (i, g r)) tab) d = map_option g (map_of tab d)"
  by (induction tab) auto

lemma fileLogWriter_Write_healthy:
  assumes "f fw = Some \<lparr>Name = nm, fd = d\<rparr>" and "map_of (open_files st) d = Some (AtPath nm)"
    and "map_of (disk st) nm = Some c"
  shows "fileLogWriter_Write healthy now1 now2 p fw st =
      (if int (length (c @ p)) < maxLen fw
       then ((int (length p), None), fw, st\<lparr>disk := AList.update nm (c @ p) (disk st)\<rparr>, [])
       else ((int (length p), None), fw\<lparr>f := Some \<lparr>Name = nm, fd = next_fd st\<rparr>\<rparr>,
             \<lparr>disk = AList.update nm []
                (AList.update (newBackupFilename now2 nm) (c @ p) (AList.delete nm (disk st))),
              open_files = AList.update (next_fd st) (AtPath nm)
                (map (\<lambda>(i, r). (i, renamed nm (newBackupFilename now2 nm)
                        (map_of (disk st) (newBackupFilename now2 nm)) r))
                   (AList.delete d (open_files st))),
              next_fd = Suc (next_fd st)\<rparr>,
             [RotateTask (newBackupFilename now1 nm) nm]))"
proof -
  have ne: "newBackupFilename now2 nm \<noteq> nm"
    by (rule newBackupFilename_neq)
  show ?thesis
    unfolding fileLogWriter_Write_def
    using assms ne
    by (simp add: file_Write_def fileSize_def file_Stat_Size_def file_Close_def os_Rename_def
        openLogFile_healthy healthy_def update_conv' delete_conv' delete_update_same Let_def
        del: length_append)
qed

text \<open>
  Claim C4. The writer holds an \<^verbatim>\<open>*os.File\<close> that is open on the file at its path, with
  contents \<open>c\<close>, and no operation of the operating system fails. \<^verbatim>\<open>Write(p)\<close> appends
  \<open>p\<close> and returns \<^verbatim>\<open>(len(p), nil)\<close>. When the size \<open>length (c @ p)\<close> is below
  \<open>maxLen\<close> nothing else happens: no file is closed, renamed or opened and no goroutine
  is started. Otherwise there is one rotation. The \<^verbatim>\<open>*os.File\<close> of the writer is closed:
  it is no longer among the open files and answers \<open>ErrFileClosed\<close>. The file is renamed
  to the name with the time stamp and holds \<open>c @ p\<close>. The path is opened again: the
  writer holds a new \<^verbatim>\<open>*os.File\<close>, open on the file at the original path, which exists
  and is empty, and the size read through it is 0. Exactly one goroutine has been
  started.
\<close>

theorem Write_rotates:
  assumes "f fw = Some \<lparr>Name = nm, fd = d\<rparr>" and "map_of (open_files st) d = Some (AtPath nm)"
    and "d < next_fd st" and "map_of (disk st) nm = Some c"
  shows "(let r = fileLogWriter_Write healthy now1 now2 p fw st;
              bak = newBackupFilename now2 nm;
              fw' = fw\<lparr>f := Some \<lparr>Name = nm, fd = next_fd st\<rparr>\<rparr>;
              st' = \<lparr>disk = AList.update nm [] (AList.update bak (c @ p) (AList.delete nm (disk st))),
                     open_files = AList.update (next_fd st) (AtPath nm)
                       (map (\<lambda>(i, r). (i, renamed nm bak (map_of (disk st) bak) r))
                          (AList.delete d (open_files st))),
                     next_fd = Suc (next_fd st)\<rparr>
          in if int (length (c @ p)) < maxLen fw
             then r = ((int (length p), None), fw, st\<lparr>disk := AList.update nm (c @ p) (disk st)\<rparr>, [])
             else r = ((int (length p), None), fw', st', [RotateTask (newBackupFilename now1 nm) nm])
                \<and> map_of (disk st') bak = Some (c @ p)
                \<and> map_of (disk st') nm = Some []
                \<and> map_of (open_files st') d = None
                \<and> map_of (open_files st') (next_fd st) = Some (AtPath nm)
                \<and> fileSize healthy fw st' = Inl ErrFileClosed
                \<and> fileSize healthy fw' st' = Inr 0)"
proof -
  let ?bak = "newBackupFilename now2 nm"
  let ?fw' = "fw\<lparr>f := Some \<lparr>Name = nm, fd = next_fd st\<rparr>\<rparr>"
  let ?st' = "\<lparr>disk = AList.update nm [] (AList.update ?bak (c @ p) (AList.delete nm (disk st))),
              open_files = AList.update (next_fd st) (AtPath nm)
                (map (\<lambda>(i, r). (i, renamed nm ?bak (map_of (disk st) ?bak) r))
                   (AList.delete d (open_files st))),
              next_fd = Suc (next_fd st)\<rparr>"
  have ne: "?bak \<noteq> nm"
    by (rule newBackupFilename_neq)
  have a: "map_of (disk ?st') ?bak = Some (c @ p)"
    using ne by (simp add: update_conv')
  have b: "map_of (disk ?st') nm = Some []"
    by (simp add: update_conv')
  have old: "map_of (open_files ?st') d = None"
    using assms(3) by (simp add: update_conv' map_of_renamed delete_conv')
  have new: "map_of (open_files ?st') (next_fd st) = Some (AtPath nm)"
    by (simp add: update_conv')
  have c: "fileSize healthy fw ?st' = Inl ErrFileClosed"
    using assms(1) old by (simp add: fileSize_def file_Stat_Size_def)
  have d: "fileSize healthy ?fw' ?st' = Inr 0"
    using new b by (simp add: fileSize_def file_Stat_Size_def healthy_def)
  show ?thesis
    unfolding Let_def fileLogWriter_Write_healthy [OF assms(1,2,4)] using a b c d old new by simp
qed

theorem Write_rotates_witness:
  "fileLogWriter_Write healthy
     \<lparr>Year = 2024, Month = 3, Day = 9, Hour = 23, Minute = 59, Second = 59\<rparr>
     \<lparr>Year = 2024, Month = 3, Day = 9, Hour = 23, Minute = 59, Second = 59\<rparr>
     ''56789''
     \<lparr>path = ''app.log'', f = Some \<lparr>Name = ''app.log'', fd = 0\<rparr>, maxLen = 10, maxFiles = 5\<rparr>
     \<lparr>disk = [(''app.log'', ''01234'')],
      open_files = [(0, AtPath ''app.log'')], next_fd = 1\<rparr> =
   ((5, None),
    \<lparr>path = ''app.log'', f = Some \<lparr>Name = ''app.log'', fd = 1\<rparr>, maxLen = 10, maxFiles = 5\<rparr>,
    \<lparr>disk = [(''app-2024-03-09-235959.log'', ''0123456789''), (''app.log'', [])],
     open_files = [(1, AtPath ''app.log'')], next_fd = 2\<rparr>,
    [RotateTask ''app-2024-03-09-235959.log'' ''app.log''])
   \<and> fileSize healthy
     \<lparr>path = ''app.log'', f = Some \<lparr>Name = ''app.log'', fd = 0\<rparr>, maxLen = 10, maxFiles = 5\<rparr>
     \<lparr>disk = [(''app-2024-03-09-235959.log'', ''0123456789''), (''app.log'', [])],
      open_files = [(1, AtPath ''app.log'')], next_fd = 2\<rparr> =
   Inl ErrFileClosed
   \<and> fileSize healthy
     \<lparr>path = ''app.log'', f = Some \<lparr>Name = ''app.log'', fd = 1\<rparr>, maxLen = 10, maxFiles = 5\<rparr>
     \<lparr>disk = [(''app-2024-03-09-235959.log'', ''0123456789''), (''app.log'', [])],
      open_files = [(1, AtPath ''app.log'')], next_fd = 2\<rparr> =
   Inr 0
   \<and> fileLogWriter_Write healthy
     \<lparr>Year = 2024, Month = 3, Day = 9, Hour = 23, Minute = 59, Second = 59\<rparr>
     \<lparr>Year = 2024, Month = 3, Day = 9, Hour = 23, Minute = 59, Second = 59\<rparr>
     ''5678''
     \<lparr>path = ''app.log'', f = Some \<lparr>Name = ''app.log'', fd = 0\<rparr>, maxLen = 10, maxFiles = 5\<rparr>
     \<lparr>disk = [(''app.log'', ''01234'')],
      open_files = [(0, AtPath ''app.log'')], next_fd = 1\<rparr> =
   ((4, None),
    \<lparr>path = ''app.log'', f = Some \<lparr>Name = ''app.log'', fd = 0\<rparr>, maxLen = 10, maxFiles = 5\<rparr>,
    \<lparr>disk = [(''app.log'', ''012345678'')],
     open_files = [(0, AtPath ''app.log'')], next_fd = 1\<rparr>, [])"
  using
    Write_rotates [of "\<lparr>path = ''app.log'', f = Some \<lparr>Name = ''app.log'', fd = 0\<rparr>,
            maxLen = 10, maxFiles = 5\<rparr>" "''app.log''" 0
      "\<lparr>disk = [(''app.log'', ''01234'')],
        open_files = [(0, AtPath ''app.log'')], next_fd = 1\<rparr>" "''01234''"
      "\<lparr>Year = 2024, Month = 3, Day = 9, Hour = 23, Minute = 59, Second = 59\<rparr>"
      "\<lparr>Year = 2024, Month = 3, Day = 9, Hour = 23, Minute = 59, Second = 59\<rparr>" "''56789''"]
    Write_rotates [of "\<lparr>path = ''app.log'', f = Some \<lparr>Name = ''app.log'', fd = 0\<rparr>,
            maxLen = 10, maxFiles = 5\<rparr>" "''app.log''" 0
      "\<lparr>disk = [(''app.log'', ''01234'')],
        open_files = [(0, AtPath ''app.log'')], next_fd = 1\<rparr>" "''01234''"
      "\<lparr>Year = 2024, Month = 3, Day = 9, Hour = 23, Minute = 59, Second = 59\<rparr>"
      "\<lparr>Year = 2024, Month = 3, Day = 9, Hour = 23, Minute = 59, Second = 59\<rparr>" "''5678''"]
  by (simp add: Let_def bak_before renamed_def numeral_2_eq_2)

text \<open>
  The hypotheses of the theorem describe every writer in use: \<^verbatim>\<open>NewFileLogWriter\<close>
  establishes them and \<^verbatim>\<open>Write\<close> keeps them.
\<close>

lemma NewFileLogWriter_ready:
  assumes "NewFileLogWriter healthy pth maxLen0 maxFiles0 st = (Inr fw, st', ts)"
  shows "f fw = Some \<lparr>Name = pth, fd = next_fd st\<rparr>
    \<and> map_of (open_files st') (next_fd st) = Some (AtPath pth)
    \<and> next_fd st < next_fd st'
    \<and> (\<exists>c. map_of (disk st') pth = Some c)"
  using assms
  by (auto simp: NewFileLogWriter_def openLogFile_healthy update_conv' split: option.splits)

lemma Write_keeps_ready:
  assumes "f fw = Some \<lparr>Name = nm, fd = d\<rparr>" and "map_of (open_files st) d = Some (AtPath nm)"
    and "d < next_fd st" and "map_of (disk st) nm = Some c"
    and "fileLogWriter_Write healthy now1 now2 p fw st = (r, fw', st', ts)"
  shows "\<exists>d' c'. f fw' = Some \<lparr>Name = nm, fd = d'\<rparr>
    \<and> map_of (open_files st') d' = Some (AtPath nm)
    \<and> d' < next_fd st'
    \<and> map_of (disk st') nm = Some c'"
proof (cases "int (length (c @ p)) < maxLen fw")
  case True
  then show ?thesis
    using assms fileLogWriter_Write_healthy [OF assms(1,2,4), of now1 now2 p]
    by (auto simp: update_conv')
next
  case False
  then show ?thesis
    using assms fileLogWriter_Write_healthy [OF assms(1,2,4), of now1 now2 p]
    by (auto simp: update_conv')
qed

text \<open>
  The same for a run of calls: as long as the size stays below \<open>maxLen\<close> no call
  rotates, and the call with which the size first reaches \<open>maxLen\<close> rotates once.
\<close>

lemma fileLogWriter_Write_calls_append:
  "fileLogWriter_Write_calls io (xs @ ys) fw st =
     (case fileLogWriter_Write_calls io xs fw st of
        (rs, fw1, st1, ts1) \<Rightarrow>
          (case fileLogWriter_Write_calls io ys fw1 st1 of
             (rs', fw2, st2, ts2) \<Rightarrow> (rs @ rs', fw2, st2, ts1 @ ts2)))"
  by (induction xs arbitrary: fw st) (auto split: prod.splits)

lemma Write_calls_below_maxLen:
  assumes "f fw = Some \<lparr>Name = nm, fd = d\<rparr>" and "map_of (open_files st) d = Some (AtPath nm)"
    and "map_of (disk st) nm = Some c"
    and "int (length c) + int (length (concat (map (snd \<circ> snd) xs))) < maxLen fw"
  shows "fileLogWriter_Write_calls healthy xs fw st =
    (map (\<lambda>x. (int (length (snd (snd x))), None)) xs, fw,
     st\<lparr>disk := AList.update nm (c @ concat (map (snd \<circ> snd) xs)) (disk st)\<rparr>, [])"
  using assms
proof (induction xs arbitrary: c st)
  case Nil
  then show ?case by (simp add: update_triv)
next
  case (Cons x xs)
  obtain now1 now2 p where x: "x = (now1, now2, p)"
    by (cases x) auto
  let ?st1 = "st\<lparr>disk := AList.update nm (c @ p) (disk st)\<rparr>"
  have below: "int (length (c @ p)) < maxLen fw"
    using Cons.prems(4) x by simp
  have step: "fileLogWriter_Write healthy now1 now2 p fw st = ((int (length p), None), fw, ?st1, [])"
    using fileLogWriter_Write_healthy [OF Cons.prems(1,2,3), of now1 now2 p] below by simp
  have rest: "fileLogWriter_Write_calls healthy xs fw ?st1 =
      (map (\<lambda>x. (int (length (snd (snd x))), None)) xs, fw,
       ?st1\<lparr>disk := AList.update nm ((c @ p) @ concat (map (snd \<circ> snd) xs)) (disk ?st1)\<rparr>, [])"
    using Cons.prems x by (intro Cons.IH) (simp_all add: update_conv')
  show ?case
    unfolding x fileLogWriter_Write_calls.simps step using rest by (simp add: comp_def)
qed

lemma first_crossing_rotates_once:
  assumes "f fw = Some \<lparr>Name = nm, fd = d\<rparr>" and "map_of (open_files st) d = Some (AtPath nm)"
    and "map_of (disk st) nm = Some c"
    and "int (length c) + int (length (concat (map (snd \<circ> snd) xs))) < maxLen fw"
    and "maxLen fw \<le> int (length c) + int (length (concat (map (snd \<circ> snd) xs))) + int (length p)"
  shows "fileLogWriter_Write_calls healthy (xs @ [(now1, now2, p)]) fw st =
    (map (\<lambda>x. (int (length (snd (snd x))), None)) xs @ [(int (length p), None)],
     fw\<lparr>f := Some \<lparr>Name = nm, fd = next_fd st\<rparr>\<rparr>,
     \<lparr>disk = AList.update nm [] (AList.update (newBackupFilename now2 nm)
        (c @ concat (map (snd \<circ> snd) xs) @ p) (AList.delete nm (disk st))),
      open_files = AList.update (next_fd st) (AtPath nm)
        (map (\<lambda>(i, r). (i, renamed nm (newBackupFilename now2 nm)
                (map_of (disk st) (newBackupFilename now2 nm)) r))
           (AList.delete d (open_files st))),
      next_fd = Suc (next_fd st)\<rparr>,
     [RotateTask (newBackupFilename now1 nm) nm])"
proof -
  let ?c' = "c @ concat (map (snd \<circ> snd) xs)"
  let ?st1 = "st\<lparr>disk := AList.update nm ?c' (disk st)\<rparr>"
  have ne: "newBackupFilename now2 nm \<noteq> nm"
    by (rule newBackupFilename_neq)
  have last: "fileLogWriter_Write healthy now1 now2 p fw ?st1 =
      ((int (length p), None), fw\<lparr>f := Some \<lparr>Name = nm, fd = next_fd st\<rparr>\<rparr>,
       \<lparr>disk = AList.update nm [] (AList.update (newBackupFilename now2 nm) (?c' @ p)
          (AList.delete nm (disk st))),
        open_files = AList.update (next_fd st) (AtPath nm)
          (map (\<lambda>(i, r). (i, renamed nm (newBackupFilename now2 nm)
                  (map_of (disk st) (newBackupFilename now2 nm)) r))
             (AList.delete d (open_files st))),
        next_fd = Suc (next_fd st)\<rparr>,
       [RotateTask (newBackupFilename now1 nm) nm])"
    using assms(5) ne fileLogWriter_Write_healthy [of fw nm d ?st1 ?c' now1 now2 p]
    by (simp add: assms(1,2) update_conv' delete_update_same)
  show ?thesis
    unfolding fileLogWriter_Write_calls_append Write_calls_below_maxLen [OF assms(1,2,3,4)]
    using last by simp
qed

subsection \<open>The two clock reads of a rotation\<close>

text \<open>
  Claim C10 does not hold of the code. \<^verbatim>\<open>Write\<close> computes the archive name twice, with
  two calls of \<^verbatim>\<open>hal.Now()\<close>: the first result is kept in \<^verbatim>\<open>bakFile\<close> for the
  goroutine, the second is the target of \<^verbatim>\<open>os.Rename\<close>. The two names are equal exactly
  when the two clock values have the same text in the layout, so they differ as soon as
  a second passes between the reads. Below the first read is at 23:59:59 and the
  second at 00:00:00: the file is renamed to the later name, the goroutine is given the
  earlier one, its \<^verbatim>\<open>compress\<close> creates an empty \<^verbatim>\<open>.gz\<close> file for a source that does not
  exist and fails, and the archive stays as it is.
\<close>

theorem rename_target_differs_from_bakFile:
  "fileLogWriter_Write healthy
     \<lparr>Year = 2024, Month = 3, Day = 9, Hour = 23, Minute = 59, Second = 59\<rparr>
     \<lparr>Year = 2024, Month = 3, Day = 10, Hour = 0, Minute = 0, Second = 0\<rparr>
     ''0123456789''
     \<lparr>path = ''app.log'', f = Some \<lparr>Name = ''app.log'', fd = 0\<rparr>, maxLen = 10, maxFiles = 5\<rparr>
     \<lparr>disk = [(''app.log'', [])],
      open_files = [(0, AtPath ''app.log'')], next_fd = 1\<rparr> =
   ((10, None),
    \<lparr>path = ''app.log'', f = Some \<lparr>Name = ''app.log'', fd = 1\<rparr>, maxLen = 10, maxFiles = 5\<rparr>,
    \<lparr>disk = [(''app-2024-03-10-000000.log'', ''0123456789''), (''app.log'', [])],
     open_files = [(1, AtPath ''app.log'')], next_fd = 2\<rparr>,
    [RotateTask ''app-2024-03-09-235959.log'' ''app.log''])
   \<and> run_task healthy mark_codec
     \<lparr>path = ''app.log'', f = Some \<lparr>Name = ''app.log'', fd = 1\<rparr>, maxLen = 10, maxFiles = 5\<rparr>
     (RotateTask ''app-2024-03-09-235959.log'' ''app.log'')
     [(''app-2024-03-10-000000.log'', ''0123456789''), (''app.log'', [])] =
   Returns [(''app-2024-03-10-000000.log'', ''0123456789''), (''app.log'', []),
            (''app-2024-03-09-235959.log.gz'', [])]"
  by (simp add: fileLogWriter_Write_def file_Write_def fileSize_def file_Stat_Size_def
      file_Close_def os_Rename_def openLogFile_healthy healthy_def bak_before bak_after Let_def
      run_task_def compress_def os_Create_def os_Open_def renamed_def)

subsection \<open>Compression\<close>


text \<open>
  Claim C5. Let the source \<open>logFile\<close> exist with contents \<open>c\<close>. When none of the five
  steps fails (create the \<^verbatim>\<open>.gz\<close> file, open the source, copy, close the encoder, remove
  the source), \<^verbatim>\<open>compress\<close> returns nil, the source is gone, and the \<^verbatim>\<open>.gz\<close> file holds
  the complete stream for \<open>c\<close>. When any step fails, \<^verbatim>\<open>compress\<close> returns an error and
  the source is still there with contents \<open>c\<close>; the \<^verbatim>\<open>.gz\<close> file, once created, holds
  some prefix of the stream. No other file changes.
\<close>

theorem compress_keeps_source:
  assumes "map_of fs logFile = Some c"
  shows "(let gz = logFile @ ''.gz''; r = compress io cd logFile fs
          in (if io (OpCreate gz) = None \<and> io (OpOpen logFile) = None
                 \<and> io (OpCopy logFile gz) = None \<and> io (OpGzipClose gz) = None
                 \<and> io (OpRemove logFile) = None
              then fst r = None \<and> map_of (snd r) logFile = None
                 \<and> map_of (snd r) gz = Some (encode cd c)
              else fst r \<noteq> None \<and> map_of (snd r) logFile = Some c
                 \<and> (io (OpCreate gz) = None \<longrightarrow>
                      (\<exists>k. map_of (snd r) gz = Some (take k (encode cd c)))))
           \<and> (\<forall>q. q \<noteq> logFile \<and> q \<noteq> gz \<longrightarrow> map_of (snd r) q = map_of fs q))"
proof -
  have full: "encode cd c = take (length (encode cd c)) (encode cd c)"
    by simp
  have empty: "[] = take 0 (encode cd c)"
    by simp
  show ?thesis
    using assms
    apply (simp add: Let_def compress_def os_Create_def os_Open_def os_Remove_def
        update_conv' delete_conv' split: option.splits)
    apply (intro conjI impI allI)
    apply (auto simp: update_conv' delete_conv' intro: exI [of _ 0] exI [of _ "length (encode cd c)"])
    done
qed

theorem compress_keeps_source_witness:
  "fst (compress healthy mark_codec ''a.log'' [(''a.log'', ''abc'')]) = None
   \<and> map_of (snd (compress healthy mark_codec ''a.log'' [(''a.log'', ''abc'')])) ''a.log'' = None
   \<and> map_of (snd (compress healthy mark_codec ''a.log'' [(''a.log'', ''abc'')])) ''a.log.gz'' =
       Some ''<abc>''
   \<and> fst (compress (healthy(OpGzipClose ''a.log.gz'' := Some (ErrIO (OpGzipClose ''a.log.gz''))))
         mark_codec ''a.log'' [(''a.log'', ''abc'')]) \<noteq> None
   \<and> map_of (snd (compress (healthy(OpGzipClose ''a.log.gz'' := Some (ErrIO (OpGzipClose ''a.log.gz''))))
         mark_codec ''a.log'' [(''a.log'', ''abc'')])) ''a.log'' = Some ''abc''"
  using
    compress_keeps_source [of "[(''a.log'', ''abc'')]" "''a.log''" "''abc''" healthy mark_codec]
    compress_keeps_source [of "[(''a.log'', ''abc'')]" "''a.log''" "''abc''"
      "healthy(OpGzipClose ''a.log.gz'' := Some (ErrIO (OpGzipClose ''a.log.gz'')))" mark_codec]
  by (simp add: Let_def healthy_def mark_codec_def)

subsection \<open>The files a pattern lists\<close>

lemma hasMeta_append [simp]: "hasMeta (a @ b) \<longleftrightarrow> hasMeta a \<or> hasMeta b"
  by (auto simp: hasMeta_def)

lemma hasMeta_Cons: "hasMeta (c # cs) \<longleftrightarrow> c \<in> {CHR ''*'', CHR ''?'', CHR ''['', CHR 0x5C} \<or> hasMeta cs"
  by (auto simp: hasMeta_def)

lemma Match_lit:
  "\<not> hasMeta lit \<Longrightarrow> Match (lit @ pat) nm \<longleftrightarrow> (\<exists>r. nm = lit @ r \<and> Match pat r)"
proof (induction lit arbitrary: nm)
  case Nil
  then show ?case by simp
next
  case (Cons c lit)
  then have c: "c \<noteq> CHR ''*''" "c \<noteq> CHR ''?''" and lit: "\<not> hasMeta lit"
    by (auto simp: hasMeta_Cons)
  show ?case
  proof (cases nm)
    case Nil
    then show ?thesis using c by simp
  next
    case (Cons x xs)
    then show ?thesis
      using c Cons.IH [OF lit, of xs] by auto
  qed
qed

lemma Match_lit_only: "\<not> hasMeta lit \<Longrightarrow> Match lit nm \<longleftrightarrow> nm = lit"
  using Match_lit [of lit "[]" nm] by auto

lemma Match_star_lit:
  "\<not> hasMeta lit \<Longrightarrow>
     Match (CHR ''*'' # lit) nm \<longleftrightarrow> (\<exists>mid. nm = mid @ lit \<and> CHR ''/'' \<notin> set mid)"
proof (induction nm)
  case Nil
  then show ?case by (auto simp: Match_lit_only)
next
  case (Cons x xs)
  have "Match (CHR ''*'' # lit) (x # xs) \<longleftrightarrow>
      x # xs = lit \<or> (x \<noteq> CHR ''/'' \<and> (\<exists>mid. xs = mid @ lit \<and> CHR ''/'' \<notin> set mid))"
    using Cons by (simp add: Match_lit_only)
  also have "\<dots> \<longleftrightarrow> (\<exists>mid. x # xs = mid @ lit \<and> CHR ''/'' \<notin> set mid)"
  proof
    assume "x # xs = lit \<or> (x \<noteq> CHR ''/'' \<and> (\<exists>mid. xs = mid @ lit \<and> CHR ''/'' \<notin> set mid))"
    then show "\<exists>mid. x # xs = mid @ lit \<and> CHR ''/'' \<notin> set mid"
    proof
      assume "x # xs = lit"
      then show ?thesis by (intro exI [of _ "[]"]) simp
    next
      assume "x \<noteq> CHR ''/'' \<and> (\<exists>mid. xs = mid @ lit \<and> CHR ''/'' \<notin> set mid)"
      then obtain mid where "xs = mid @ lit" "CHR ''/'' \<notin> set mid" "x \<noteq> CHR ''/''" by blast
      then show ?thesis by (intro exI [of _ "x # mid"]) simp
    qed
  next
    assume "\<exists>mid. x # xs = mid @ lit \<and> CHR ''/'' \<notin> set mid"
    then obtain mid where m: "x # xs = mid @ lit" "CHR ''/'' \<notin> set mid" by blast
    show "x # xs = lit \<or> (x \<noteq> CHR ''/'' \<and> (\<exists>mid. xs = mid @ lit \<and> CHR ''/'' \<notin> set mid))"
    proof (cases mid)
      case Nil
      with m show ?thesis by simp
    next
      case (Cons y ys)
      with m show ?thesis by auto
    qed
  qed
  finally show ?case .
qed

lemma Match_backup:
  assumes "\<not> hasMeta base" and "\<not> hasMeta tail"
  shows "Match (base @ ''-*'' @ tail) nm \<longleftrightarrow>
    (\<exists>mid. nm = base @ ''-'' @ mid @ tail \<and> CHR ''/'' \<notin> set mid)"
proof -
  have "Match (base @ ''-*'' @ tail) nm \<longleftrightarrow> (\<exists>r. nm = base @ r \<and> Match (''-'' @ CHR ''*'' # tail) r)"
    using Match_lit [OF assms(1), of "''-*'' @ tail" nm] by simp
  also have "\<dots> \<longleftrightarrow> (\<exists>r. nm = base @ r \<and> (\<exists>r'. r = ''-'' @ r' \<and> Match (CHR ''*'' # tail) r'))"
    using Match_lit [of "''-''" "CHR ''*'' # tail"] by (simp add: hasMeta_def)
  also have "\<dots> \<longleftrightarrow> (\<exists>mid. nm = base @ ''-'' @ mid @ tail \<and> CHR ''/'' \<notin> set mid)"
    using Match_star_lit [OF assms(2)] by auto
  finally show ?thesis .
qed





lemma splitLogFilename_no_meta:
  assumes "\<not> hasMeta pth"
  shows "\<not> hasMeta (fst (splitLogFilename pth))" and "\<not> hasMeta (snd (splitLogFilename pth))"
proof -
  have "fst (splitLogFilename pth) @ snd (splitLogFilename pth) = pth"
    by (rule splitLogFilename_append) simp
  then have "hasMeta (fst (splitLogFilename pth) @ snd (splitLogFilename pth)) = hasMeta pth"
    by simp
  then show "\<not> hasMeta (fst (splitLogFilename pth))" and "\<not> hasMeta (snd (splitLogFilename pth))"
    using assms by simp_all
qed


lemma getBackFiles_healthy:
  "getBackFiles healthy nm sfx fs =
     Inr (sort (remdups (filter (Match (fst (splitLogFilename nm) @ ''-*'' @ snd (splitLogFilename nm) @ sfx))
       (map fst fs))))"
  by (simp add: getBackFiles_def Glob_def healthy_def split: prod.splits)

lemma listing_members:
  assumes "\<not> hasMeta nm" and "\<not> hasMeta sfx" and "getBackFiles healthy nm sfx fs = Inr files"
  shows "q \<in> set files \<longleftrightarrow>
    q \<in> fst ` set fs \<and>
    (\<exists>mid. q = fst (splitLogFilename nm) @ ''-'' @ mid @ snd (splitLogFilename nm) @ sfx
       \<and> CHR ''/'' \<notin> set mid)"
proof -
  have "\<not> hasMeta (snd (splitLogFilename nm) @ sfx)"
    using assms(1,2) splitLogFilename_no_meta(2) by simp
  then have "Match (fst (splitLogFilename nm) @ ''-*'' @ snd (splitLogFilename nm) @ sfx) q \<longleftrightarrow>
      (\<exists>mid. q = fst (splitLogFilename nm) @ ''-'' @ mid @ snd (splitLogFilename nm) @ sfx
         \<and> CHR ''/'' \<notin> set mid)"
    using Match_backup [OF splitLogFilename_no_meta(1) [OF assms(1)], of "snd (splitLogFilename nm) @ sfx" q]
    by simp
  moreover have "files = sort (remdups (filter
      (Match (fst (splitLogFilename nm) @ ''-*'' @ snd (splitLogFilename nm) @ sfx)) (map fst fs)))"
    using assms(3) by (simp add: getBackFiles_healthy)
  ultimately show ?thesis
    by auto
qed

subsection \<open>Order of names and order of times\<close>

lemma less_append_same_length:
  "length x = length y \<Longrightarrow> x @ u < y @ v \<longleftrightarrow> x < y \<or> (x = y \<and> u < (v :: 'a :: linorder list))"
  by (induction x y rule: list_induct2) auto

lemma less_append_same [simp]: "x @ u < x @ v \<longleftrightarrow> u < (v :: 'a :: linorder list)"
  using less_append_same_length [of x x u v] by simp

lemma below_ten: "i < 10 \<Longrightarrow> i \<in> {0, 1, 2, 3, 4, 5, 6, 7, 8, 9 :: nat}"
  by auto

lemma digit_less: "i < 10 \<Longrightarrow> j < 10 \<Longrightarrow> ''0123456789'' ! i < ''0123456789'' ! j \<longleftrightarrow> i < j"
  by (drule below_ten, drule below_ten) auto

lemma digit_eq: "i < 10 \<Longrightarrow> j < 10 \<Longrightarrow> ''0123456789'' ! i = ''0123456789'' ! j \<longleftrightarrow> i = j"
  by (drule below_ten, drule below_ten) auto

lemma zero_pad_Suc:
  assumes "0 < k"
  shows "zero_pad (Suc k) n = zero_pad k (n div 10) @ [''0123456789'' ! (n mod 10)]"
proof (cases "n < 10")
  case True
  then have "dec n = [''0123456789'' ! n]" and "dec (n div 10) = ''0''"
    by (simp_all add: dec.simps)
  moreover obtain k' where "k = Suc k'"
    using assms by (cases k) auto
  ultimately show ?thesis
    using True by (simp add: zero_pad_def replicate_append_same)
next
  case False
  then have "dec n = dec (n div 10) @ [''0123456789'' ! (n mod 10)]"
    by (subst dec.simps) simp
  then show ?thesis
    by (simp add: zero_pad_def)
qed

lemma zero_pad_one: "n < 10 \<Longrightarrow> zero_pad (Suc 0) n = [''0123456789'' ! n]"
  by (simp add: zero_pad_def dec.simps)

lemma length_zero_pad: "0 < k \<Longrightarrow> n < 10 ^ k \<Longrightarrow> length (zero_pad k n) = k"
proof (induction k arbitrary: n)
  case 0
  then show ?case by simp
next
  case (Suc k)
  show ?case
  proof (cases "k = 0")
    case True
    with Suc.prems show ?thesis by (simp add: zero_pad_one)
  next
    case False
    then have "n div 10 < 10 ^ k"
      using Suc.prems by (simp add: less_mult_imp_div_less mult.commute)
    with False Suc.IH [of "n div 10"] show ?thesis
      by (simp add: zero_pad_Suc)
  qed
qed

lemma divmod10_less:
  "(a::nat) < b \<longleftrightarrow> a div 10 < b div 10 \<or> (a div 10 = b div 10 \<and> a mod 10 < b mod 10)"
proof -
  define x y r s where "x = a div 10" and "y = b div 10" and "r = a mod 10" and "s = b mod 10"
  have "a = 10 * x + r" and "b = 10 * y + s" and "r < 10" and "s < 10"
    by (simp_all add: x_def y_def r_def s_def)
  then have "a < b \<longleftrightarrow> x < y \<or> (x = y \<and> r < s)"
    by arith
  then show ?thesis
    by (simp add: x_def y_def r_def s_def)
qed

lemma divmod10_eq:
  "(a::nat) = b \<longleftrightarrow> a div 10 = b div 10 \<and> a mod 10 = b mod 10"
  by (metis div_mult_mod_eq)

lemma zero_pad_order:
  "0 < k \<Longrightarrow> a < 10 ^ k \<Longrightarrow> b < 10 ^ k \<Longrightarrow>
     (zero_pad k a < zero_pad k b \<longleftrightarrow> a < b) \<and> (zero_pad k a = zero_pad k b \<longleftrightarrow> a = b)"
proof (induction k arbitrary: a b)
  case 0
  then show ?case by simp
next
  case (Suc k)
  show ?case
  proof (cases "k = 0")
    case True
    with Suc.prems show ?thesis
      by (simp add: zero_pad_one digit_less digit_eq)
  next
    case False
    have a: "a div 10 < 10 ^ k" and b: "b div 10 < 10 ^ k"
      using Suc.prems by (simp_all add: less_mult_imp_div_less mult.commute)
    have len: "length (zero_pad k (a div 10)) = length (zero_pad k (b div 10))"
      using False a b by (simp add: length_zero_pad)
    have ih: "(zero_pad k (a div 10) < zero_pad k (b div 10) \<longleftrightarrow> a div 10 < b div 10)
        \<and> (zero_pad k (a div 10) = zero_pad k (b div 10) \<longleftrightarrow> a div 10 = b div 10)"
      using False a b by (intro Suc.IH) auto
    have lt: "a < b \<longleftrightarrow> a div 10 < b div 10 \<or> (a div 10 = b div 10 \<and> a mod 10 < b mod 10)"
      by (rule divmod10_less)
    have eq: "a = b \<longleftrightarrow> a div 10 = b div 10 \<and> a mod 10 = b mod 10"
      by (rule divmod10_eq)
    show ?thesis
      using False ih
      by (simp add: zero_pad_Suc less_append_same_length [OF len] digit_less digit_eq lt eq)
  qed
qed

lemma Format_order:
  assumes "civil a" and "civil b"
  shows "Format a < Format b \<longleftrightarrow> before a b"
proof -
  have y: "Year a < 10 ^ 4" "Year b < 10 ^ 4"
    and m: "Month a < 10 ^ 2" "Month b < 10 ^ 2"
    and d: "Day a < 10 ^ 2" "Day b < 10 ^ 2"
    and h: "Hour a < 10 ^ 2" "Hour b < 10 ^ 2"
    and mi: "Minute a < 10 ^ 2" "Minute b < 10 ^ 2"
    and s: "Second a < 10 ^ 2" "Second b < 10 ^ 2"
    using assms by (simp_all add: civil_def)
  note len = length_zero_pad [of 4, OF _ y(1)] length_zero_pad [of 4, OF _ y(2)]
    length_zero_pad [of 2, OF _ m(1)] length_zero_pad [of 2, OF _ m(2)]
    length_zero_pad [of 2, OF _ d(1)] length_zero_pad [of 2, OF _ d(2)]
    length_zero_pad [of 2, OF _ h(1)] length_zero_pad [of 2, OF _ h(2)]
    length_zero_pad [of 2, OF _ mi(1)] length_zero_pad [of 2, OF _ mi(2)]
    length_zero_pad [of 2, OF _ s(1)] length_zero_pad [of 2, OF _ s(2)]
  note ord = zero_pad_order [of 4, OF _ y] zero_pad_order [of 2, OF _ m]
    zero_pad_order [of 2, OF _ d] zero_pad_order [of 2, OF _ h]
    zero_pad_order [of 2, OF _ mi] zero_pad_order [of 2, OF _ s]
  have two: "\<And>x y u v. length x = 2 \<Longrightarrow> length y = 2 \<Longrightarrow>
      x @ u < y @ v \<longleftrightarrow> x < y \<or> (x = y \<and> u < (v :: string))"
    by (rule less_append_same_length) simp
  have four: "\<And>x y u v. length x = 4 \<Longrightarrow> length y = 4 \<Longrightarrow>
      x @ u < y @ v \<longleftrightarrow> x < y \<or> (x = y \<and> u < (v :: string))"
    by (rule less_append_same_length) simp
  have last2: "zero_pad 2 (Second a) < zero_pad 2 (Second b) \<longleftrightarrow> Second a < Second b"
    using ord by simp
  show ?thesis
    unfolding Format_def before_def
    using len ord by (simp add: two four)
qed

lemma length_Format: "civil t \<Longrightarrow> length (Format t) = 17"
  by (simp add: Format_def civil_def length_zero_pad)

lemma backup_name_order:
  assumes "civil a" and "civil b"
  shows "newBackupFilename a nm @ sfx < newBackupFilename b nm @ sfx \<longleftrightarrow> before a b"
proof -
  have len: "length (Format a) = length (Format b)"
    using assms by (simp add: length_Format)
  have "newBackupFilename a nm @ sfx < newBackupFilename b nm @ sfx \<longleftrightarrow>
      Format a @ (snd (splitLogFilename nm) @ sfx) < Format b @ (snd (splitLogFilename nm) @ sfx)"
    by (simp add: newBackupFilename_split)
  also have "\<dots> \<longleftrightarrow> Format a < Format b"
    by (simp add: less_append_same_length [OF len])
  finally show ?thesis
    using Format_order [OF assms] by simp
qed

subsection \<open>Pruning\<close>

lemma delete_filter: "AList.delete k fs = filter (\<lambda>e. fst e \<noteq> k) fs"
  by (induction fs) auto

lemma int64_sub_in_range:
  "- (2 ^ 63) \<le> a - b \<Longrightarrow> a - b < 2 ^ 63 \<Longrightarrow> int64_sub a b = a - b"
  by (simp add: int64_sub_def)

lemma clean_loop_removes:
  assumes ok: "\<forall>q\<in>set files. io (OpRemove q) = None" and d: "distinct files"
    and ex: "set files \<subseteq> fst ` set fs" and b: "bound \<le> int (length files)"
  shows "i \<le> nat bound \<Longrightarrow>
     clean_loop io files bound i (filter (\<lambda>e. fst e \<notin> set (take i files)) fs) =
       Returns (None, filter (\<lambda>e. fst e \<notin> set (take (nat bound) files)) fs)"
proof (induction "nat bound - i" arbitrary: i)
  case 0
  then have "i = nat bound" by simp
  then have "\<not> int i < bound" by simp
  then show ?case
    using \<open>i = nat bound\<close> by (subst clean_loop.simps) simp
next
  case (Suc k)
  then have lt: "int i < bound" and il: "i < length files"
    using b by auto
  let ?fsi = "filter (\<lambda>e. fst e \<notin> set (take i files)) fs"
  have notin: "files ! i \<notin> set (take i files)"
    using d il by (auto simp: in_set_conv_nth distinct_conv_nth)
  have "files ! i \<in> fst ` set fs"
    using ex il by auto
  then have "files ! i \<in> fst ` set ?fsi"
    using notin by force
  then obtain c where c: "map_of ?fsi (files ! i) = Some c"
    by (metis map_of_eq_None_iff not_Some_eq)
  have rm: "os_Remove io (files ! i) ?fsi = (None, AList.delete (files ! i) ?fsi)"
    using ok il c by (simp add: os_Remove_def)
  have next_fs: "AList.delete (files ! i) ?fsi =
      filter (\<lambda>e. fst e \<notin> set (take (i + 1) files)) fs"
    using il by (auto simp: delete_filter take_Suc_conv_app_nth intro: filter_cong)
  have "clean_loop io files bound (i + 1) (filter (\<lambda>e. fst e \<notin> set (take (i + 1) files)) fs) =
      Returns (None, filter (\<lambda>e. fst e \<notin> set (take (nat bound) files)) fs)"
    using Suc.hyps(2) Suc.prems lt by (intro Suc.hyps(1)) auto
  then show ?case
    using lt il rm next_fs by (subst clean_loop.simps) simp
qed

lemma filter_not_in_take:
  assumes "distinct xs"
  shows "filter (\<lambda>x. x \<notin> set (take k xs)) xs = drop k xs"
proof -
  have disj: "set (take k xs) \<inter> set (drop k xs) = {}"
    using assms by (metis append_take_drop_id distinct_append)
  have "filter (\<lambda>x. x \<notin> set (take k xs)) (take k xs @ drop k xs) = drop k xs"
    unfolding filter_append using disj by (auto simp: filter_empty_conv filter_id_conv)
  then show ?thesis by simp
qed

lemma getBackFiles_after_removal:
  assumes "getBackFiles healthy nm sfx fs = Inr files"
  shows "getBackFiles healthy nm sfx (filter (\<lambda>e. fst e \<notin> set (take k files)) fs) = Inr (drop k files)"
proof -
  let ?M = "Match (fst (splitLogFilename nm) @ ''-*'' @ snd (splitLogFilename nm) @ sfx)"
  let ?D = "\<lambda>x. x \<notin> set (take k files)"
  have files: "files = sort (remdups (filter ?M (map fst fs)))"
    using assms by (simp add: getBackFiles_healthy)
  then have dist: "distinct files"
    by simp
  have "map fst (filter (\<lambda>e. ?D (fst e)) fs) = filter ?D (map fst fs)"
    by (induction fs) auto
  then have "sort (remdups (filter ?M (map fst (filter (\<lambda>e. ?D (fst e)) fs)))) =
      sort (remdups (filter ?M (filter ?D (map fst fs))))"
    by simp
  also have "\<dots> = sort (remdups (filter ?D (filter ?M (map fst fs))))"
    by (simp add: conj_commute)
  also have "\<dots> = filter ?D (sort (remdups (filter ?M (map fst fs))))"
    by (simp add: remdups_filter filter_sort)
  also have "\<dots> = drop k files"
    using dist files filter_not_in_take [of files k] by simp
  finally show ?thesis
    by (simp add: getBackFiles_healthy)
qed

lemma map_of_filter_keys:
  "q \<notin> D \<Longrightarrow> map_of (filter (\<lambda>e. fst e \<notin> D) fs) q = map_of fs q"
  by (induction fs) auto

lemma prune_core:
  assumes "0 \<le> maxFiles fw" and "maxFiles fw < 2 ^ 63"
    and "getCompressedFiles healthy nm fs = Inr files" and "length files < 2 ^ 63"
  shows "(let d = length files - nat (maxFiles fw);
              fs' = filter (\<lambda>e. fst e \<notin> set (take d files)) fs
          in cleanOldBackupFiles healthy fw nm fs = Returns (None, fs')
           \<and> getCompressedFiles healthy nm fs' = Inr (drop d files)
           \<and> length (drop d files) = min (length files) (nat (maxFiles fw))
           \<and> sorted files \<and> distinct files
           \<and> (\<forall>x\<in>set (take d files). \<forall>y\<in>set (drop d files). x < y))"
proof -
  let ?d = "length files - nat (maxFiles fw)"
  let ?fs' = "filter (\<lambda>e. fst e \<notin> set (take ?d files)) fs"
  have files: "files = sort (remdups (filter (Match (fst (splitLogFilename nm) @ ''-*'' @
      snd (splitLogFilename nm) @ ''.gz'')) (map fst fs)))"
    using assms(3) by (simp add: getCompressedFiles_def getBackFiles_healthy)
  have srt: "sorted files" and dist: "distinct files"
    using files by simp_all
  have sub: "set files \<subseteq> fst ` set fs"
    using files by auto
  have bound: "int64_sub (int (length files)) (maxFiles fw) = int (length files) - maxFiles fw"
    using assms(1,2,4) by (intro int64_sub_in_range) auto
  have le: "int (length files) - maxFiles fw \<le> int (length files)"
    using assms(1) by simp
  have nat_bound: "nat (int (length files) - maxFiles fw) = ?d"
    using assms(1) by (simp add: nat_diff_distrib')
  have "clean_loop healthy files (int (length files) - maxFiles fw) 0
      (filter (\<lambda>e. fst e \<notin> set (take 0 files)) fs) =
      Returns (None, filter (\<lambda>e. fst e \<notin> set (take (nat (int (length files) - maxFiles fw)) files)) fs)"
    using dist sub le by (intro clean_loop_removes) (simp_all add: healthy_def)
  then have a: "cleanOldBackupFiles healthy fw nm fs = Returns (None, ?fs')"
    using assms(3) by (simp add: cleanOldBackupFiles_def bound nat_bound)
  have b: "getCompressedFiles healthy nm ?fs' = Inr (drop ?d files)"
    using assms(3) unfolding getCompressedFiles_def by (rule getBackFiles_after_removal)
  have c: "length (drop ?d files) = min (length files) (nat (maxFiles fw))"
    by auto
  have "sorted_wrt (<) (take ?d files @ drop ?d files)"
    using srt dist by (simp add: strict_sorted_iff)
  then have e: "\<forall>x\<in>set (take ?d files). \<forall>y\<in>set (drop ?d files). x < y"
    unfolding sorted_wrt_append by blast
  show ?thesis
    unfolding Let_def using a b c srt dist e by blast
qed

text \<open>
  Claim C6. Let \<open>maxFiles\<close> be a non-negative \<^verbatim>\<open>int\<close>, let the path have no special
  character of \<^verbatim>\<open>filepath.Glob\<close>, let \<open>files\<close> be what \<^verbatim>\<open>getCompressedFiles\<close> returns,
  and let no operation of the operating system fail. \<open>files\<close> is sorted by name
  without repetition and holds exactly the existing paths of the form
  \<^verbatim>\<open>base-*ext.gz\<close>. \<^verbatim>\<open>cleanOldBackupFiles\<close>
  removes the first \<open>length files - maxFiles\<close> of them and nothing else, and returns
  nil. Listed again, the survivors are the rest of \<open>files\<close>: the last \<open>maxFiles\<close> of
  them, or all when there are fewer. Every removed name is below every surviving name;
  and when both carry time stamps, the removed archive is the earlier one.
\<close>

theorem prune_keeps_newest:
  assumes "0 \<le> maxFiles fw" and "maxFiles fw < 2 ^ 63"
    and "getCompressedFiles healthy nm fs = Inr files" and "length files < 2 ^ 63"
    and "\<not> hasMeta nm"
  shows "(let d = length files - nat (maxFiles fw);
              fs' = filter (\<lambda>e. fst e \<notin> set (take d files)) fs
          in cleanOldBackupFiles healthy fw nm fs = Returns (None, fs')
           \<and> getCompressedFiles healthy nm fs' = Inr (drop d files)
           \<and> length (drop d files) = min (length files) (nat (maxFiles fw))
           \<and> sorted files \<and> distinct files
           \<and> (\<forall>x\<in>set (take d files). \<forall>y\<in>set (drop d files). x < y)
           \<and> (\<forall>ta tb. civil ta \<and> civil tb
                 \<and> newBackupFilename ta nm @ ''.gz'' \<in> set (take d files)
                 \<and> newBackupFilename tb nm @ ''.gz'' \<in> set (drop d files) \<longrightarrow> before ta tb)
           \<and> (\<forall>q. q \<in> set files \<longleftrightarrow>
                 q \<in> fst ` set fs \<and>
                 (\<exists>mid. q = fst (splitLogFilename nm) @ ''-'' @ mid @
                           snd (splitLogFilename nm) @ ''.gz'' \<and> CHR ''/'' \<notin> set mid))
           \<and> (\<forall>q. q \<notin> set (take d files) \<longrightarrow> map_of fs' q = map_of fs q))"
proof -
  let ?d = "length files - nat (maxFiles fw)"
  let ?fs' = "filter (\<lambda>e. fst e \<notin> set (take ?d files)) fs"
  have core: "cleanOldBackupFiles healthy fw nm fs = Returns (None, ?fs')
      \<and> getCompressedFiles healthy nm ?fs' = Inr (drop ?d files)
      \<and> length (drop ?d files) = min (length files) (nat (maxFiles fw))
      \<and> sorted files \<and> distinct files
      \<and> (\<forall>x\<in>set (take ?d files). \<forall>y\<in>set (drop ?d files). x < y)"
    using prune_core [OF assms(1-4)] by (simp add: Let_def)
  have chrono: "before ta tb"
    if "civil ta" "civil tb" "newBackupFilename ta nm @ ''.gz'' \<in> set (take ?d files)"
      "newBackupFilename tb nm @ ''.gz'' \<in> set (drop ?d files)" for ta tb
  proof -
    have "newBackupFilename ta nm @ ''.gz'' < newBackupFilename tb nm @ ''.gz''"
      using core that(3,4) by blast
    then show ?thesis
      using backup_name_order [OF that(1,2)] by simp
  qed
  have members: "q \<in> set files \<longleftrightarrow>
      q \<in> fst ` set fs \<and>
      (\<exists>mid. q = fst (splitLogFilename nm) @ ''-'' @ mid @ snd (splitLogFilename nm) @ ''.gz''
         \<and> CHR ''/'' \<notin> set mid)" for q
    using assms(3,5) unfolding getCompressedFiles_def
    by (intro listing_members) (simp_all add: hasMeta_def)
  have others: "map_of ?fs' q = map_of fs q" if "q \<notin> set (take ?d files)" for q
    using that by (rule map_of_filter_keys)
  show ?thesis
    unfolding Let_def using core chrono members others by blast
qed

lemma listing_example:
  "getCompressedFiles healthy ''app.log''
     [(''app.log'', ''x''), (''app-2024-03-11-000000.log.gz'', ''c''),
      (''app-2024-03-09-235959.log.gz'', ''a''), (''app-2024-03-10-000000.log.gz'', ''b''),
      (''app-2024-03-12-000000.log'', ''d'')] =
   Inr [''app-2024-03-09-235959.log.gz'', ''app-2024-03-10-000000.log.gz'',
        ''app-2024-03-11-000000.log.gz'']"
  by code_simp

theorem prune_keeps_newest_witness:
  "cleanOldBackupFiles healthy
     \<lparr>path = ''app.log'', f = Some \<lparr>Name = ''app.log'', fd = 0\<rparr>, maxLen = 10, maxFiles = 2\<rparr>
     ''app.log''
     [(''app.log'', ''x''), (''app-2024-03-11-000000.log.gz'', ''c''),
      (''app-2024-03-09-235959.log.gz'', ''a''), (''app-2024-03-10-000000.log.gz'', ''b''),
      (''app-2024-03-12-000000.log'', ''d'')] =
   Returns (None,
     [(''app.log'', ''x''), (''app-2024-03-11-000000.log.gz'', ''c''),
      (''app-2024-03-10-000000.log.gz'', ''b''), (''app-2024-03-12-000000.log'', ''d'')])"
  using prune_keeps_newest [OF _ _ listing_example,
      of "\<lparr>path = ''app.log'', f = Some \<lparr>Name = ''app.log'', fd = 0\<rparr>, maxLen = 10, maxFiles = 2\<rparr>"]
  by (simp add: Let_def hasMeta_def)

text \<open>A negative \<open>maxFiles\<close> makes the loop index past the end of the list.\<close>

lemma negative_maxFiles_panics:
  "cleanOldBackupFiles healthy
     \<lparr>path = ''app.log'', f = Some \<lparr>Name = ''app.log'', fd = 0\<rparr>, maxLen = 10, maxFiles = - 1\<rparr>
     ''app.log'' [(''app.log'', ''x''), (''app-2024-03-11-000000.log.gz'', ''c'')] =
   Panics ''index out of range''"
  by code_simp

subsection \<open>Recovery at construction\<close>



text \<open>
  For a path without extension the pattern is \<^verbatim>\<open>base-*\<close>, which the compressed
  archives match as well: they too are handed to \<^verbatim>\<open>compress\<close>.
\<close>

lemma recovery_scan_without_extension:
  "NewFileLogWriter healthy ''app'' 10 5
     \<lparr>disk = [(''app-2024-03-09-235959.gz'', ''z'')], open_files = [], next_fd = 0\<rparr> =
     (Inr \<lparr>path = ''app'', f = Some \<lparr>Name = ''app'', fd = 0\<rparr>, maxLen = 10, maxFiles = 5\<rparr>,
      \<lparr>disk = [(''app-2024-03-09-235959.gz'', ''z''), (''app'', [])],
       open_files = [(0, AtPath ''app'')], next_fd = 1\<rparr>,
      [CompressTask ''app-2024-03-09-235959.gz''])"
  by code_simp

end
